theory Spec2Isabelle
  imports Main "HOL-Library.Word"
begin

section \<open>Strings of the program\<close>

text \<open>
  A JavaScript string is a sequence of UTF-16 code units. \<open>str.length\<close> is the length of
  the list and \<open>str.charCodeAt(i)\<close> is the value of the i-th unit.
\<close>

type_synonym jsstring = "16 word list"

text \<open>An ASCII literal of the source, as code units.\<close>

definition asc :: "string \<Rightarrow> jsstring" where
  "asc s = map of_char s"

section \<open>Key generator (main.ts, getStrHashCode and getKeyFromStr)\<close>

text \<open>
  \<open>x | 0\<close> and the result of \<open>x << n\<close> are ToInt32 of the ECMAScript specification:
  the value modulo \<open>2^32\<close>, read as two's complement. The operands of \<open>-\<close> and \<open>+\<close> in
  the loop are below \<open>2^33\<close> in absolute value, so the double arithmetic of the source is
  exact and is written on \<open>int\<close>.
\<close>

definition toInt32 :: "int \<Rightarrow> int" where
  "toInt32 x = (x + 2 ^ 31) mod 2 ^ 32 - 2 ^ 31"

definition shiftLeft :: "int \<Rightarrow> nat \<Rightarrow> int" where
  "shiftLeft x n = toInt32 (toInt32 x * 2 ^ (n mod 32))"

text \<open>
  The body of the \<open>for\<close> loop of getStrHashCode, one code unit at a time:
  \<open>hash = (hash << 5) - hash + char; hash |= 0\<close>.
\<close>

fun hashLoop :: "jsstring \<Rightarrow> int \<Rightarrow> int" where
  "hashLoop [] hash = hash"
| "hashLoop (c # cs) hash = hashLoop cs (toInt32 (shiftLeft hash 5 - hash + uint c))"

definition getStrHashCode :: "jsstring \<Rightarrow> int" where
  "getStrHashCode str = (if length str = 0 then 0 else hashLoop str 0)"

text \<open>
  \<open>new Int32Array([code]).buffer\<close>: the four bytes of the 32-bit value, lowest byte first
  (the byte order of the platforms Node.js runs on).
\<close>

definition int32Bytes :: "int \<Rightarrow> nat list" where
  "int32Bytes code =
     (let u = nat (code mod 2 ^ 32)
      in [u mod 256, (u div 256) mod 256, (u div 65536) mod 256, (u div 16777216) mod 256])"

definition base64urlAlphabet :: string where
  "base64urlAlphabet = ''ABCDEFGHIJKLMNOPQRSTUVWXYZabcdefghijklmnopqrstuvwxyz0123456789-_''"

definition b64 :: "nat \<Rightarrow> char" where
  "b64 i = base64urlAlphabet ! (i mod 64)"

text \<open>\<open>Buffer.toString('base64url')\<close>: three bytes give four characters, and the encoding
  is not padded.\<close>

fun base64url :: "nat list \<Rightarrow> string" where
  "base64url (a # b # c # r) =
     [b64 (a div 4), b64 ((a mod 4) * 16 + b div 16), b64 ((b mod 16) * 4 + c div 64), b64 (c mod 64)]
     @ base64url r"
| "base64url [a, b] = [b64 (a div 4), b64 ((a mod 4) * 16 + b div 16), b64 ((b mod 16) * 4)]"
| "base64url [a] = [b64 (a div 4), b64 ((a mod 4) * 16)]"
| "base64url [] = []"

definition replaceAllChar :: "char \<Rightarrow> char \<Rightarrow> string \<Rightarrow> string" where
  "replaceAllChar x y s = map (\<lambda>c. if c = x then y else c) s"

definition isDigit :: "char \<Rightarrow> bool" where
  "isDigit c = (c \<in> set ''0123456789'')"

text \<open>
  \<open>Number.isInteger(Number(a[0]))\<close> on a string of one character: a decimal digit converts
  to its value, a white space character to 0, every other character to NaN. An index out
  of range gives \<open>undefined\<close>, which converts to NaN.
\<close>

definition isStrWhiteSpaceChar :: "char \<Rightarrow> bool" where
  "isStrWhiteSpaceChar c = (of_char c \<in> {9, 10, 11, 12, 13, 32, 160 :: nat})"

definition firstIsInteger :: "string \<Rightarrow> bool" where
  "firstIsInteger a = (case a of [] \<Rightarrow> False | c # _ \<Rightarrow> isDigit c \<or> isStrWhiteSpaceChar c)"

definition getKeyFromStr :: "jsstring \<Rightarrow> string" where
  "getKeyFromStr str =
     (let code = getStrHashCode str;
          a = replaceAllChar (CHR ''-'') (CHR ''_'') (base64url (int32Bytes code))
      in if firstIsInteger a then ''_'' @ a else a)"


section \<open>Target-script test (main.ts, zhReg and hasZhStr)\<close>

definition inZhRange :: "16 word \<Rightarrow> bool" where
  "inZhRange c = (0x4e00 \<le> c \<and> c \<le> 0x9fa5)"

text \<open>
  \<open>zhReg\<close>, a character class from U+4E00 to U+9FA5, is one regular-expression object
  of the module, and it has the global flag: \<open>zhReg.test(s)\<close> starts matching at the object's \<open>lastIndex\<close>, stores
  the end of the match there when it finds one, and stores 0 when it finds none
  (RegExpBuiltinExec of the ECMAScript specification). \<open>lastIndex\<close> is therefore state
  that every call reads and writes; it is passed explicitly.

  \<open>zhRegExec s i\<close> is the search loop from index \<open>i\<close>: the end index of the first match
  of the character class at or after \<open>i\<close>, or \<open>None\<close>.
\<close>

function zhRegExec :: "jsstring \<Rightarrow> nat \<Rightarrow> nat option" where
  "zhRegExec s i =
     (if length s < i then None
      else if i < length s \<and> inZhRange (s ! i) then Some (i + 1)
      else zhRegExec s (i + 1))"
  by pat_completeness auto
termination
  by (relation "measure (\<lambda>(s, i). length s + 1 - i)") auto

declare zhRegExec.simps [simp del]

definition zhRegTest :: "jsstring \<Rightarrow> nat \<Rightarrow> bool \<times> nat" where
  "zhRegTest s lastIndex =
     (case zhRegExec s lastIndex of None \<Rightarrow> (False, 0) | Some e \<Rightarrow> (True, e))"

definition isHighSurrogate :: "16 word \<Rightarrow> bool" where
  "isHighSurrogate c = (0xD800 \<le> c \<and> c \<le> 0xDBFF)"

definition isLowSurrogate :: "16 word \<Rightarrow> bool" where
  "isLowSurrogate c = (0xDC00 \<le> c \<and> c \<le> 0xDFFF)"

text \<open>\<open>for (const s of str)\<close>: the string iterator yields one code point at a time, a
  surrogate pair as a string of two units and every other unit alone.\<close>

fun codePoints :: "jsstring \<Rightarrow> jsstring list" where
  "codePoints (c # d # r) =
     (if isHighSurrogate c \<and> isLowSurrogate d then [c, d] # codePoints r
      else [c] # codePoints (d # r))"
| "codePoints [c] = [[c]]"
| "codePoints [] = []"

fun hasZhStrLoop :: "jsstring list \<Rightarrow> nat \<Rightarrow> bool \<times> nat" where
  "hasZhStrLoop [] lastIndex = (False, lastIndex)"
| "hasZhStrLoop (s # ss) lastIndex =
     (case zhRegTest s lastIndex of
        (True, li) \<Rightarrow> (True, li)
      | (False, li) \<Rightarrow> hasZhStrLoop ss li)"

definition hasZhStr :: "jsstring \<Rightarrow> nat \<Rightarrow> bool \<times> nat" where
  "hasZhStr str lastIndex = hasZhStrLoop (codePoints str) lastIndex"

text \<open>\<open>xs.filter((v) => hasZhStr(v))\<close>: the calls run from left to right on the shared
  \<open>lastIndex\<close>.\<close>

fun filterHasZhStr :: "jsstring list \<Rightarrow> nat \<Rightarrow> jsstring list \<times> nat" where
  "filterHasZhStr [] lastIndex = ([], lastIndex)"
| "filterHasZhStr (v # vs) lastIndex =
     (case hasZhStr v lastIndex of
        (b, li) \<Rightarrow> (case filterHasZhStr vs li of
                      (r, li') \<Rightarrow> (if b then v # r else r, li')))"

section \<open>String operations of the extractor\<close>

text \<open>\<open>String.prototype.trim\<close> removes WhiteSpace and LineTerminator code units at both
  ends.\<close>

definition isWhiteSpace :: "16 word \<Rightarrow> bool" where
  "isWhiteSpace c =
     (c \<in> {0x09, 0x0A, 0x0B, 0x0C, 0x0D, 0x20, 0xA0, 0x1680, 0x2028, 0x2029, 0x202F, 0x205F,
            0x3000, 0xFEFF}
      \<or> (0x2000 \<le> c \<and> c \<le> 0x200A))"

definition trim :: "jsstring \<Rightarrow> jsstring" where
  "trim s = rev (dropWhile isWhiteSpace (rev (dropWhile isWhiteSpace s)))"

text \<open>\<open>Array.prototype.join\<close>.\<close>

fun join :: "jsstring \<Rightarrow> jsstring list \<Rightarrow> jsstring" where
  "join sep [] = []"
| "join sep [x] = x"
| "join sep (x # y # r) = x @ sep @ join sep (y # r)"

definition placeholder :: jsstring where
  "placeholder = [0x7B, 0x7D]"

text \<open>\<open>String.prototype.substring(start, end)\<close> with both arguments given: they are clamped
  to the length and swapped when out of order.\<close>

definition substring :: "jsstring \<Rightarrow> nat \<Rightarrow> nat \<Rightarrow> jsstring" where
  "substring s a b =
     (let a' = min a (length s); b' = min b (length s);
          from = min a' b'; to = max a' b'
      in take (to - from) (drop from s))"

text \<open>
  \<open>rmREg = /(^\{\})|(\{\}$)/\<close> has no global flag, so \<open>v.replace(rmREg, '')\<close> removes the
  leftmost match only. At index \<open>i\<close> the first alternative matches when \<open>i = 0\<close> and the
  two units there are \<open>{}\<close>; the second matches when the two units there are \<open>{}\<close> and
  they end the string.
\<close>

definition rmREgMatchAt :: "jsstring \<Rightarrow> nat \<Rightarrow> bool" where
  "rmREgMatchAt s i =
     ((i = 0 \<and> take 2 s = placeholder)
      \<or> (take 2 (drop i s) = placeholder \<and> i + 2 = length s))"

definition replaceRmREg :: "jsstring \<Rightarrow> jsstring" where
  "replaceRmREg s =
     (case List.find (rmREgMatchAt s) [0 ..< length s + 1] of
        None \<Rightarrow> s
      | Some i \<Rightarrow> take i s @ drop (i + 2) s)"

text \<open>\<open>Set.prototype.add\<close> on a set that iterates in insertion order.\<close>

definition setAdd :: "'a \<Rightarrow> 'a list \<Rightarrow> 'a list" where
  "setAdd x xs = (if x \<in> set xs then xs else xs @ [x])"

section \<open>Syntax tree\<close>

text \<open>
  The parser is outside the repository. Of a node the extractor reads its type, \<open>start\<close>
  and \<open>end\<close> (offsets in code units), the \<open>value\<close> of a string literal, the raw texts
  of the quasis of a template literal, and operator, \<open>left\<close> and \<open>right\<close> of a binary
  expression. The children are kept in the order in which the traversal visits them; the
  quasis of a template literal are nodes without a visitor and are kept as their raw texts.
\<close>

datatype node =
    StringLiteral nat nat jsstring
  | TemplateLiteral nat nat "jsstring list" "node list"
  | BinaryExpression nat nat string node node
  | OtherNode nat nat "node list"

fun nstart :: "node \<Rightarrow> nat" where
  "nstart (StringLiteral s e v) = s"
| "nstart (TemplateLiteral s e qs es) = s"
| "nstart (BinaryExpression s e opr l r) = s"
| "nstart (OtherNode s e cs) = s"

fun nend :: "node \<Rightarrow> nat" where
  "nend (StringLiteral s e v) = e"
| "nend (TemplateLiteral s e qs es) = e"
| "nend (BinaryExpression s e opr l r) = e"
| "nend (OtherNode s e cs) = e"

fun children :: "node \<Rightarrow> node list" where
  "children (StringLiteral s e v) = []"
| "children (TemplateLiteral s e qs es) = es"
| "children (BinaryExpression s e opr l r) = [l, r]"
| "children (OtherNode s e cs) = cs"

text \<open>The traversal enters a node before its children, and the children in order.\<close>

fun preorder :: "node \<Rightarrow> node list" where
  "preorder (StringLiteral s e v) = [StringLiteral s e v]"
| "preorder (TemplateLiteral s e qs es) = TemplateLiteral s e qs es # concat (map preorder es)"
| "preorder (BinaryExpression s e opr l r) =
     BinaryExpression s e opr l r # preorder l @ preorder r"
| "preorder (OtherNode s e cs) = OtherNode s e cs # concat (map preorder cs)"

fun isPlus :: "node \<Rightarrow> bool" where
  "isPlus (BinaryExpression s e opr l r) = (opr = ''+'')"
| "isPlus n = False"

section \<open>Claimed nodes and flattening (main.ts, hasUsedSet, pushUsed, flatBinaryExpression)\<close>

definition hasUsedSet :: "node list \<Rightarrow> node \<Rightarrow> bool" where
  "hasUsedSet usedNodes n = list_ex (\<lambda>v. nstart v = nstart n \<and> nend v = nend n) usedNodes"

definition pushUsed :: "node \<Rightarrow> node list \<Rightarrow> node list" where
  "pushUsed n usedNodes = (if \<not> hasUsedSet usedNodes n then usedNodes @ [n] else usedNodes)"

text \<open>
  flatBinaryExpression takes the claim callback as an argument. The callback acts on
  state, here of any type \<open>'s\<close>; the left operand is flattened before the right one.
\<close>

fun flatBinaryExpression :: "node \<Rightarrow> (node \<Rightarrow> 's \<Rightarrow> 's) \<Rightarrow> 's \<Rightarrow> node list \<times> 's" where
  "flatBinaryExpression (BinaryExpression s e opr l r) cb st =
     (if opr = ''+'' then
        (case flatBinaryExpression l cb (cb (BinaryExpression s e opr l r) st) of
           (ls, st1) \<Rightarrow> (case flatBinaryExpression r cb st1 of
                          (rs, st2) \<Rightarrow> (ls @ rs, st2)))
      else ([BinaryExpression s e opr l r], st))"
| "flatBinaryExpression (StringLiteral s e v) cb st = ([StringLiteral s e v], st)"
| "flatBinaryExpression (TemplateLiteral s e qs es) cb st = ([TemplateLiteral s e qs es], st)"
| "flatBinaryExpression (OtherNode s e cs) cb st = ([OtherNode s e cs], st)"

section \<open>Extractor (main.ts, pickZhStrByAst)\<close>

datatype error = SyntaxError | StartOrEndUndefined | WriteFileError

record pstate =
  zhStrSet :: "jsstring list"
  usedNodes :: "node list"
  lastIndex :: nat

text \<open>\<open>node.quasis.map((v) => v.value.raw.trim()).join('{}')\<close>\<close>

definition templateText :: "jsstring list \<Rightarrow> jsstring" where
  "templateText qs = join placeholder (map trim qs)"

text \<open>The callback of \<open>flatNodes.map\<close>: the text of one leaf, and the claim it makes.\<close>

fun leafText :: "node \<Rightarrow> node list \<Rightarrow> jsstring \<times> node list" where
  "leafText (TemplateLiteral s e qs es) used =
     (templateText qs, pushUsed (TemplateLiteral s e qs es) used)"
| "leafText (StringLiteral s e v) used = (trim v, pushUsed (StringLiteral s e v) used)"
| "leafText n used = (placeholder, used)"

fun mapLeafText :: "node list \<Rightarrow> node list \<Rightarrow> jsstring list \<times> node list" where
  "mapLeafText [] used = ([], used)"
| "mapLeafText (v # vs) used =
     (case leafText v used of
        (t, used1) \<Rightarrow> (case mapLeafText vs used1 of
                        (ts, used2) \<Rightarrow> (t # ts, used2)))"

text \<open>
  One visitor call. \<open>!node.start || !node.end\<close> holds for the offset 0 as it does for
  \<open>undefined\<close>, and the parser always sets both offsets, so the test is \<open>s = 0 \<or> e = 0\<close>.
  \<open>hasZhStr\<close> is only called when the operator is \<open>+\<close>.
\<close>

fun visit :: "jsstring \<Rightarrow> node \<Rightarrow> pstate \<Rightarrow> error + pstate" where
  "visit code (StringLiteral s e v) st =
     (if hasUsedSet (usedNodes st) (StringLiteral s e v) then Inr st
      else Inr (st\<lparr>usedNodes := pushUsed (StringLiteral s e v) (usedNodes st),
                   zhStrSet := setAdd (trim v) (zhStrSet st)\<rparr>))"
| "visit code (TemplateLiteral s e qs es) st =
     (if hasUsedSet (usedNodes st) (TemplateLiteral s e qs es) then Inr st
      else Inr (st\<lparr>usedNodes := pushUsed (TemplateLiteral s e qs es) (usedNodes st),
                   zhStrSet := setAdd (templateText qs) (zhStrSet st)\<rparr>))"
| "visit code (BinaryExpression s e opr l r) st =
     (if hasUsedSet (usedNodes st) (BinaryExpression s e opr l r) then Inr st
      else
        let used1 = pushUsed (BinaryExpression s e opr l r) (usedNodes st) in
        if s = 0 \<or> e = 0 then Inl StartOrEndUndefined
        else if opr = ''+'' then
          (case hasZhStr (substring code s e) (lastIndex st) of
             (True, li) \<Rightarrow>
               (case flatBinaryExpression (BinaryExpression s e opr l r) pushUsed used1 of
                  (flatNodes, used2) \<Rightarrow>
                    (case mapLeafText flatNodes used2 of
                       (texts, used3) \<Rightarrow>
                         Inr (st\<lparr>usedNodes := used3,
                                  zhStrSet := setAdd (join [] texts) (zhStrSet st),
                                  lastIndex := li\<rparr>)))
           | (False, li) \<Rightarrow> Inr (st\<lparr>usedNodes := used1, lastIndex := li\<rparr>))
        else Inr (st\<lparr>usedNodes := used1\<rparr>))"
| "visit code (OtherNode s e cs) st = Inr st"

text \<open>The traversal: the visitor calls in order, stopped by the first exception. With the
  exception comes the state before the failing call, of which only \<open>lastIndex\<close> outlives
  the extraction.\<close>

fun visitAll :: "jsstring \<Rightarrow> node list \<Rightarrow> pstate \<Rightarrow> error option \<times> pstate" where
  "visitAll code [] st = (None, st)"
| "visitAll code (n # ns) st =
     (case visit code n st of
        Inl err \<Rightarrow> (Some err, st)
      | Inr st' \<Rightarrow> visitAll code ns st')"

text \<open>The traversal starts at the root of the tree (the file node) and calls the visitors
  on the nodes below it.\<close>

definition traverse :: "jsstring \<Rightarrow> node \<Rightarrow> pstate \<Rightarrow> error option \<times> pstate" where
  "traverse code program st = visitAll code (concat (map preorder (children program))) st"

definition postProcess :: "jsstring \<Rightarrow> jsstring" where
  "postProcess v = replaceRmREg (trim v)"

text \<open>The expression that pickZhStrByAst returns:
  \<open>Array.from(zhStrSet).filter((v) => hasZhStr(v)).map((v) => v.trim().replace(rmREg, '')).filter(Boolean)\<close>\<close>

definition returnList :: "jsstring list \<Rightarrow> nat \<Rightarrow> jsstring list \<times> nat" where
  "returnList zhStrs li =
     (case filterHasZhStr zhStrs li of
        (vs, li') \<Rightarrow> (filter (\<lambda>v. v \<noteq> []) (map postProcess vs), li'))"

text \<open>
  \<open>parse\<close> stands for \<open>parser.parse(code, {sourceType: 'module'})\<close>; \<open>None\<close> is the
  exception it throws on text it rejects. The extraction takes \<open>lastIndex\<close> of \<open>zhReg\<close>
  as it finds it and leaves it to the next caller.
\<close>

definition pickZhStrByAst ::
  "(jsstring \<Rightarrow> node option) \<Rightarrow> jsstring \<Rightarrow> nat \<Rightarrow> (error + jsstring list) \<times> nat" where
  "pickZhStrByAst parse code li =
     (case parse code of
        None \<Rightarrow> (Inl SyntaxError, li)
      | Some program \<Rightarrow>
          (case traverse code program \<lparr>zhStrSet = [], usedNodes = [], lastIndex = li\<rparr> of
             (Some err, st) \<Rightarrow> (Inl err, lastIndex st)
           | (None, st) \<Rightarrow>
               (case returnList (zhStrSet st) (lastIndex st) of
                  (vs, li') \<Rightarrow> (Inr vs, li'))))"

section \<open>Files and catalogue (main.ts, transformWithEsbuild, getCodesFromFile, collectDirZhStr)\<close>

text \<open>
  The state outside one extraction: \<open>lastIndex\<close> of \<open>zhReg\<close>, what has been appended to
  error.log, what has been written to the error console, the documents written under
  dist (as the object that is serialised, with the folder it belongs to) and the counts
  reported for each folder.
\<close>

type_synonym fileRecord = "jsstring \<times> (string \<times> jsstring) list"

record world =
  zhRegLastIndex :: nat
  errorLog :: "jsstring list"
  consoleError :: "jsstring list"
  outputs :: "(jsstring \<times> fileRecord list) list"
  reports :: "(jsstring \<times> nat \<times> nat) list"

record block =
  content :: jsstring
  lang :: "jsstring option"

record descriptor =
  script :: "block option"
  scriptSetup :: "block option"
  template :: "block option"

text \<open>
  The collaborators outside the repository: esbuild's \<open>transform\<close> by loader and text
  (\<open>Inl\<close> is the message of the error it rejects with), the splitter and the template
  compiler of vue/compiler-sfc by file name and text, the parser, \<open>fs.readFile\<close>, and the
  sequence of files that traverseDirectory yields for a folder under the exclusion filter
  of collectDirZhStr, and the append to error.log: \<open>fsAppendFile env log entry\<close> tells
  whether \<open>fs.writeFile\<close> with the flag \<open>a\<close> succeeds when the log holds \<open>log\<close> and
  \<open>entry\<close> is to be added. Reading a file and writing the document are taken to succeed.
\<close>

record env =
  esbuildTransform :: "string \<Rightarrow> jsstring \<Rightarrow> jsstring + jsstring"
  sfcParse :: "jsstring \<Rightarrow> jsstring \<Rightarrow> descriptor"
  compileTemplate :: "jsstring \<Rightarrow> jsstring \<Rightarrow> jsstring"
  parserParse :: "jsstring \<Rightarrow> node option"
  fsReadFile :: "jsstring \<Rightarrow> jsstring"
  walkFiles :: "jsstring \<Rightarrow> jsstring list"
  fsAppendFile :: "jsstring list \<Rightarrow> jsstring \<Rightarrow> bool"

definition preCodeExtList :: "string list" where
  "preCodeExtList = [''ts'', ''jsx'', ''tsx'']"

definition codeExtList :: "string list" where
  "codeExtList = ''js'' # preCodeExtList"

definition fileExtList :: "string list" where
  "fileExtList = codeExtList @ [''vue'']"

definition newline :: jsstring where
  "newline = [0x0A]"

text \<open>\<open>ext ??= 'js'; const loader = ext === 'js' ? 'jsx' : ext\<close>\<close>

definition loaderFor :: "string option \<Rightarrow> string" where
  "loaderFor ext =
     (let ext' = (case ext of None \<Rightarrow> ''js'' | Some x \<Rightarrow> x)
      in if ext' = ''js'' then ''jsx'' else ext')"

text \<open>
  The handler of a rejected transform awaits the append to error.log before it writes to
  the error console and returns the empty text, and nothing catches what the append
  throws: when the append fails, transformWithEsbuild ends with that exception, with
  nothing written.
\<close>

definition transformWithEsbuild ::
  "env \<Rightarrow> jsstring \<Rightarrow> jsstring \<Rightarrow> string option \<Rightarrow> world \<Rightarrow> (error + jsstring) \<times> world"
  where
  "transformWithEsbuild env filePath code ext w =
     (case esbuildTransform env (loaderFor ext) code of
        Inr r \<Rightarrow> (Inr r, w)
      | Inl message \<Rightarrow>
          (let entry = join newline [asc ''esbuild transform error'', filePath, message, code,
                                     concat (replicate 4 newline)]
           in if fsAppendFile env (errorLog w) entry then
                (Inr [],
                 w\<lparr>errorLog := errorLog w @ [entry],
                   consoleError := consoleError w @
                     [join newline [asc ''esbuild transform error'', filePath, message, []]]\<rparr>)
              else (Inl WriteFileError, w)))"

text \<open>\<open>preCodeExtList.find((v) => v === script.lang)\<close>\<close>

definition findPreCodeExt :: "jsstring option \<Rightarrow> string option" where
  "findPreCodeExt l = List.find (\<lambda>v. Some (asc v) = l) preCodeExtList"

definition blockCode ::
  "env \<Rightarrow> jsstring \<Rightarrow> block option \<Rightarrow> world \<Rightarrow> (error + jsstring list) \<times> world" where
  "blockCode env filePath b w =
     (case b of
        None \<Rightarrow> (Inr [], w)
      | Some blk \<Rightarrow>
          (case transformWithEsbuild env filePath (content blk) (findPreCodeExt (lang blk)) w of
             (Inl err, w') \<Rightarrow> (Inl err, w')
           | (Inr c, w') \<Rightarrow> (Inr [c], w')))"

definition templateCode ::
  "env \<Rightarrow> jsstring \<Rightarrow> block option \<Rightarrow> world \<Rightarrow> (error + jsstring list) \<times> world" where
  "templateCode env filePath b w =
     (case b of
        None \<Rightarrow> (Inr [], w)
      | Some blk \<Rightarrow>
          (case transformWithEsbuild env filePath (compileTemplate env filePath (content blk))
                  (Some ''ts'') w of
             (Inl err, w') \<Rightarrow> (Inl err, w')
           | (Inr c, w') \<Rightarrow> (Inr [c], w')))"

definition vueCodes ::
  "env \<Rightarrow> jsstring \<Rightarrow> jsstring \<Rightarrow> world \<Rightarrow> (error + jsstring list) \<times> world" where
  "vueCodes env filePath text w =
     (let d = sfcParse env filePath text in
      case blockCode env filePath (script d) w of
        (Inl err, w1) \<Rightarrow> (Inl err, w1)
      | (Inr c1, w1) \<Rightarrow>
          (case blockCode env filePath (scriptSetup d) w1 of
             (Inl err, w2) \<Rightarrow> (Inl err, w2)
           | (Inr c2, w2) \<Rightarrow>
               (case templateCode env filePath (template d) w2 of
                  (Inl err, w3) \<Rightarrow> (Inl err, w3)
                | (Inr c3, w3) \<Rightarrow> (Inr (c1 @ c2 @ c3), w3))))"

definition getCodesFromFile ::
  "env \<Rightarrow> jsstring \<Rightarrow> string \<Rightarrow> world \<Rightarrow> (error + jsstring list) \<times> world" where
  "getCodesFromFile env filePath ext w =
     (let text = fsReadFile env filePath in
      case hasZhStr text (zhRegLastIndex w) of
        (False, li) \<Rightarrow> (Inr [], w\<lparr>zhRegLastIndex := li\<rparr>)
      | (True, li) \<Rightarrow>
          (case (if ext = ''vue'' then vueCodes env filePath text (w\<lparr>zhRegLastIndex := li\<rparr>)
                 else (case transformWithEsbuild env filePath text (Some ext)
                              (w\<lparr>zhRegLastIndex := li\<rparr>) of
                         (Inl err, w') \<Rightarrow> (Inl err, w')
                       | (Inr c, w') \<Rightarrow> (Inr [c], w'))) of
             (Inl err, w1) \<Rightarrow> (Inl err, w1)
           | (Inr codes, w1) \<Rightarrow>
               (case filterHasZhStr codes (zhRegLastIndex w1) of
                  (r, li') \<Rightarrow> (Inr r, w1\<lparr>zhRegLastIndex := li'\<rparr>))))"

text \<open>\<open>codes.map((v) => pickZhStrByAst(v))\<close>: one extraction after the other; the first
  exception ends the run of the folder.\<close>

fun pickCodes ::
  "(jsstring \<Rightarrow> node option) \<Rightarrow> jsstring list \<Rightarrow> nat \<Rightarrow> (error + jsstring list list) \<times> nat" where
  "pickCodes parse [] li = (Inr [], li)"
| "pickCodes parse (c # cs) li =
     (case pickZhStrByAst parse c li of
        (Inl err, li1) \<Rightarrow> (Inl err, li1)
      | (Inr r, li1) \<Rightarrow>
          (case pickCodes parse cs li1 of
             (Inl err, li2) \<Rightarrow> (Inl err, li2)
           | (Inr rs, li2) \<Rightarrow> (Inr (r # rs), li2)))"

text \<open>\<open>Array.from(new Set(xs))\<close>: the first occurrence of every value, in order.\<close>

definition arrayFromSet :: "'a list \<Rightarrow> 'a list" where
  "arrayFromSet xs = foldl (\<lambda>acc x. setAdd x acc) [] xs"

text \<open>\<open>Object.fromEntries\<close>: a later entry with a key already present replaces the
  value and keeps the key's place.\<close>

definition objectSet :: "'k \<Rightarrow> 'v \<Rightarrow> ('k \<times> 'v) list \<Rightarrow> ('k \<times> 'v) list" where
  "objectSet k v m =
     (if k \<in> fst ` set m then map (\<lambda>(k', v'). if k' = k then (k', v) else (k', v')) m
      else m @ [(k, v)])"

definition fromEntries :: "('k \<times> 'v) list \<Rightarrow> ('k \<times> 'v) list" where
  "fromEntries es = foldl (\<lambda>m (k, v). objectSet k v m) [] es"

text \<open>\<open>fileExtList.find((v) => filePath.endsWith(v) && filePath.at(-v.length - 1) === '.')\<close>\<close>

definition endsWith :: "jsstring \<Rightarrow> jsstring \<Rightarrow> bool" where
  "endsWith s v = (length v \<le> length s \<and> drop (length s - length v) s = v)"

definition dotBefore :: "jsstring \<Rightarrow> nat \<Rightarrow> bool" where
  "dotBefore s n = (n + 1 \<le> length s \<and> s ! (length s - n - 1) = 0x2E)"

definition findFileExt :: "jsstring \<Rightarrow> string option" where
  "findFileExt filePath =
     List.find (\<lambda>v. endsWith filePath (asc v) \<and> dotBefore filePath (length v)) fileExtList"

text \<open>The body of the \<open>for await\<close> loop of collectDirZhStr, over the files the walker
  yields.\<close>

fun collectFiles ::
  "env \<Rightarrow> jsstring \<Rightarrow> jsstring list \<Rightarrow> fileRecord list \<Rightarrow> world \<Rightarrow> (error + fileRecord list) \<times> world"
  where
  "collectFiles env dir [] textList w = (Inr textList, w)"
| "collectFiles env dir (filePath # rest) textList w =
     (case findFileExt filePath of
        None \<Rightarrow> collectFiles env dir rest textList w
      | Some ext \<Rightarrow>
          (case getCodesFromFile env filePath ext w of
             (Inl err, w1) \<Rightarrow> (Inl err, w1)
           | (Inr codes, w1) \<Rightarrow>
               if codes = [] then collectFiles env dir rest textList w1
               else
                 (case pickCodes (parserParse env) codes (zhRegLastIndex w1) of
                    (Inl err, li) \<Rightarrow> (Inl err, w1\<lparr>zhRegLastIndex := li\<rparr>)
                  | (Inr rs, li) \<Rightarrow>
                      (let zhStrList = arrayFromSet (concat rs) in
                       if zhStrList = [] then
                         collectFiles env dir rest textList (w1\<lparr>zhRegLastIndex := li\<rparr>)
                       else
                         collectFiles env dir rest
                           (textList @
                              [(drop (length dir + 1) filePath,
                                fromEntries (map (\<lambda>v. (getKeyFromStr v, v)) zhStrList))])
                           (w1\<lparr>zhRegLastIndex := li\<rparr>)))))"



section \<open>Definitions that follow the specification\<close>


definition keyChars :: "char set" where
  "keyChars = set ''ABCDEFGHIJKLMNOPQRSTUVWXYZabcdefghijklmnopqrstuvwxyz0123456789_''"

text \<open>The byte range of a node, by which the claimed nodes are compared.\<close>

definition nodeRange :: "node \<Rightarrow> nat \<times> nat" where
  "nodeRange n = (nstart n, nend n)"

text \<open>The operands of a chain of \<open>+\<close> from left to right, and the \<open>+\<close> nodes of the chain,
  parent first.\<close>

fun plusLeaves :: "node \<Rightarrow> node list" where
  "plusLeaves (BinaryExpression s e opr l r) =
     (if opr = ''+'' then plusLeaves l @ plusLeaves r else [BinaryExpression s e opr l r])"
| "plusLeaves n = [n]"

fun plusNodes :: "node \<Rightarrow> node list" where
  "plusNodes (BinaryExpression s e opr l r) =
     (if opr = ''+'' then BinaryExpression s e opr l r # plusNodes l @ plusNodes r else [])"
| "plusNodes n = []"

text \<open>The offsets of a chain of \<open>+\<close> as a parser sets them: an operand lies inside its
  expression, and the left operand ends before the right one starts.\<close>

fun plusOffsetsOk :: "node \<Rightarrow> bool" where
  "plusOffsetsOk (BinaryExpression s e opr l r) =
     (if opr = ''+'' then
        s \<le> nstart l \<and> nend l \<le> nstart r \<and> nend r \<le> e
        \<and> nstart l \<le> nend l \<and> nstart r \<le> nend r
        \<and> plusOffsetsOk l \<and> plusOffsetsOk r
      else True)"
| "plusOffsetsOk n = True"

definition hasZh :: "jsstring \<Rightarrow> bool" where
  "hasZh s = list_ex inZhRange s"

text \<open>What the string iterator yields: one unit, or a surrogate pair.\<close>

definition codePointOk :: "jsstring \<Rightarrow> bool" where
  "codePointOk cp =
     ((\<exists>c. cp = [c]) \<or> (\<exists>c d. cp = [c, d] \<and> isHighSurrogate c \<and> isLowSurrogate d))"

section \<open>Example units\<close>

text \<open>
  The unit \<open>"Z" + "S" + name\<close>, where Z is U+5F20 and S is U+4E09, placed \<open>k\<close> code units
  into the text, and its tree: file, program, expression statement, and the expression
  with its offsets.
\<close>

definition concatCode :: jsstring where
  "concatCode =
     [0x22, 0x5F20, 0x22] @ asc '' + '' @ [0x22, 0x4E09, 0x22] @ asc '' + name''"

definition concatExpr :: "nat \<Rightarrow> node" where
  "concatExpr k =
     BinaryExpression k (k + 16) ''+''
       (BinaryExpression k (k + 9) ''+''
          (StringLiteral k (k + 3) [0x5F20]) (StringLiteral (k + 6) (k + 9) [0x4E09]))
       (OtherNode (k + 12) (k + 16) [])"

definition concatProgram :: "nat \<Rightarrow> node" where
  "concatProgram k =
     OtherNode 0 (k + 16) [OtherNode 0 (k + 16) [OtherNode k (k + 16) [concatExpr k]]]"

text \<open>The unit \<open>x = "S"\<close>, where S is U+662F: an assignment of one string literal.\<close>

definition assignCode :: jsstring where
  "assignCode = asc ''x = '' @ [0x22, 0x662F, 0x22]"

definition assignProgram :: node where
  "assignProgram =
     OtherNode 0 7 [OtherNode 0 7 [OtherNode 0 7 [OtherNode 0 7
       [OtherNode 0 1 [], StringLiteral 4 7 [0x662F]]]]]"

text \<open>
  The unit \<open>x = "a" + L\<close>, where the literal L is written with two escape
  sequences (backslash, u and four hexadecimal digits, twice) between its quotes, so the
  text holds ASCII only and the value of the literal is U+4E2D U+6587.
\<close>

definition escapedCode :: jsstring where
  "escapedCode =
     asc ''x = '' @ [0x22, 0x61, 0x22] @ asc '' + ''
     @ [0x22, 0x5C] @ asc ''u4e2d'' @ [0x5C] @ asc ''u6587'' @ [0x22]"

definition escapedExpr :: node where
  "escapedExpr =
     BinaryExpression 4 24 ''+'' (StringLiteral 4 7 [0x61]) (StringLiteral 10 24 [0x4E2D, 0x6587])"

definition escapedProgram :: node where
  "escapedProgram =
     OtherNode 0 24 [OtherNode 0 24 [OtherNode 0 24 [OtherNode 0 24
       [OtherNode 0 1 [], escapedExpr]]]]"

text \<open>
  Two sets of collaborators for a folder with the one file \<open>a.ts\<close>, whose text is
  U+662F U+662F. In the first, esbuild rejects every text; in the second, esbuild returns
  the text as it is and the parser rejects every text. The splitter finds one script
  block, and every append to error.log succeeds.
\<close>

definition exampleDescriptor :: descriptor where
  "exampleDescriptor =
     \<lparr>script = Some \<lparr>content = [0x662F, 0x662F], lang = None\<rparr>, scriptSetup = None,
      template = None\<rparr>"


definition rejectingParser :: env where
  "rejectingParser =
     \<lparr>esbuildTransform = (\<lambda>loader code. Inr code),
      sfcParse = (\<lambda>filePath text. exampleDescriptor),
      compileTemplate = (\<lambda>filePath source. []),
      parserParse = (\<lambda>code. None),
      fsReadFile = (\<lambda>filePath. [0x662F, 0x662F]),
      walkFiles = (\<lambda>dir. [asc ''d/a.ts'']),
      fsAppendFile = (\<lambda>log entry. True)\<rparr>"



text \<open>The unit \<open>x = "Z" + y\<close>, where Z is U+4E2D: a \<open>+\<close> expression of one string
  literal and an identifier.\<close>

definition mixedCode :: jsstring where
  "mixedCode = asc ''x = '' @ [0x22, 0x4E2D, 0x22] @ asc '' + y''"

definition mixedExpr :: node where
  "mixedExpr = BinaryExpression 4 11 ''+'' (StringLiteral 4 7 [0x4E2D]) (OtherNode 10 11 [])"

definition mixedProgram :: node where
  "mixedProgram =
     OtherNode 0 11 [OtherNode 0 11 [OtherNode 0 11 [OtherNode 0 11
       [OtherNode 0 1 [], mixedExpr]]]]"

definition world0 :: world where
  "world0 = \<lparr>zhRegLastIndex = 0, errorLog = [], consoleError = [], outputs = [], reports = []\<rparr>"

section \<open>Properties of the key generator\<close>












lemma int32Bytes_shape: "\<exists>a b c d. int32Bytes x = [a, b, c, d]"
  by (simp add: int32Bytes_def Let_def)


lemma b64_mem: "b64 i \<in> set base64urlAlphabet"
proof -
  have "length base64urlAlphabet = 64" by (simp add: base64urlAlphabet_def)
  then show ?thesis unfolding b64_def by (simp add: nth_mem)
qed

lemma replaced_alphabet:
  "c \<in> set base64urlAlphabet \<Longrightarrow> (if c = CHR ''-'' then CHR ''_'' else c) \<in> keyChars"
  unfolding base64urlAlphabet_def keyChars_def by (cases "c = CHR ''-''") auto

lemma base64url4:
  "base64url [a, b, c, d] =
     [b64 (a div 4), b64 ((a mod 4) * 16 + b div 16), b64 ((b mod 16) * 4 + c div 64),
      b64 (c mod 64), b64 (d div 4), b64 ((d mod 4) * 16)]"
  by simp

lemma enc_chars:
  "set (replaceAllChar (CHR ''-'') (CHR ''_'') (base64url (int32Bytes x))) \<subseteq> keyChars"
proof -
  obtain a b c d where e: "int32Bytes x = [a, b, c, d]" using int32Bytes_shape by blast
  show ?thesis unfolding e base64url4 replaceAllChar_def
    using replaced_alphabet [OF b64_mem] by simp
qed

lemma enc_length:
  "length (replaceAllChar (CHR ''-'') (CHR ''_'') (base64url (int32Bytes x))) = 6"
proof -
  obtain a b c d where e: "int32Bytes x = [a, b, c, d]" using int32Bytes_shape by blast
  show ?thesis unfolding e base64url4 replaceAllChar_def by simp
qed

lemma keyChars_not_space: "c \<in> keyChars \<Longrightarrow> \<not> isStrWhiteSpaceChar c"
  unfolding keyChars_def isStrWhiteSpaceChar_def by auto

lemma enc_firstIsInteger:
  "firstIsInteger (replaceAllChar (CHR ''-'') (CHR ''_'') (base64url (int32Bytes x)))
   = isDigit (hd (replaceAllChar (CHR ''-'') (CHR ''_'') (base64url (int32Bytes x))))"
proof -
  let ?enc = "replaceAllChar (CHR ''-'') (CHR ''_'') (base64url (int32Bytes x))"
  obtain c cs where e: "?enc = c # cs" using enc_length [of x] by (cases ?enc) auto
  have "c \<in> keyChars" using enc_chars [of x] unfolding e by simp
  then show ?thesis unfolding e firstIsInteger_def by (simp add: keyChars_not_space)
qed

lemma getKeyFromStr_unfold:
  "getKeyFromStr str =
     (if isDigit (hd (replaceAllChar (CHR ''-'') (CHR ''_'') (base64url (int32Bytes (getStrHashCode str)))))
      then CHR ''_'' # replaceAllChar (CHR ''-'') (CHR ''_'') (base64url (int32Bytes (getStrHashCode str)))
      else replaceAllChar (CHR ''-'') (CHR ''_'') (base64url (int32Bytes (getStrHashCode str))))"
  unfolding getKeyFromStr_def Let_def enc_firstIsInteger by simp



text \<open>
  C10. The key of any string has six characters, or seven when \<open>_\<close> is put in front; all
  of them are letters, digits or \<open>_\<close>, and the first one is not a decimal digit.
\<close>

theorem getKeyFromStr_shape:
  "length (getKeyFromStr str)
     = (if isDigit (hd (replaceAllChar (CHR ''-'') (CHR ''_'')
                          (base64url (int32Bytes (getStrHashCode str))))) then 7 else 6)
   \<and> set (getKeyFromStr str) \<subseteq> keyChars
   \<and> getKeyFromStr str \<noteq> []
   \<and> \<not> isDigit (hd (getKeyFromStr str))"
proof -
  let ?enc = "replaceAllChar (CHR ''-'') (CHR ''_'') (base64url (int32Bytes (getStrHashCode str)))"
  have us: "CHR ''_'' \<in> keyChars" by (simp add: keyChars_def)
  have nd: "\<not> isDigit (CHR ''_'')" by (simp add: isDigit_def)
  have len: "length ?enc = 6" by (rule enc_length)
  then have ne: "?enc \<noteq> []" by auto
  show ?thesis
    unfolding getKeyFromStr_unfold using len ne us nd enc_chars [of "getStrHashCode str"] by simp
qed

theorem getKeyFromStr_shape_witness:
  "length (getKeyFromStr [0x4ED6]) = 7 \<and> getKeyFromStr [0x4ED6] = ''_1k4AAA''
   \<and> set (getKeyFromStr [0x4ED6]) \<subseteq> keyChars"
proof -
  have h: "getStrHashCode [0x4ED6] = 20182"
    by (simp add: getStrHashCode_def shiftLeft_def toInt32_def)
  have k: "getKeyFromStr [0x4ED6] = ''_1k4AAA''"
    unfolding getKeyFromStr_unfold h
    by (simp add: int32Bytes_def replaceAllChar_def b64_def base64urlAlphabet_def isDigit_def)
  show ?thesis using getKeyFromStr_shape [of "[0x4ED6]"] k by simp
qed

section \<open>Properties of the claimed nodes\<close>

lemma hasUsedSet_iff: "hasUsedSet used n \<longleftrightarrow> nodeRange n \<in> set (map nodeRange used)"
  by (induction used) (auto simp: hasUsedSet_def nodeRange_def)

lemma pushUsed_distinct:
  "distinct (map nodeRange used) \<Longrightarrow> distinct (map nodeRange (pushUsed n used))"
  unfolding pushUsed_def using hasUsedSet_iff [of used n] by simp

lemma pushUsed_present: "hasUsedSet used n \<Longrightarrow> pushUsed n used = used"
  by (simp add: pushUsed_def)

lemma pushUsed_has: "hasUsedSet (pushUsed n used) n"
  unfolding pushUsed_def by (simp add: hasUsedSet_iff)

lemma flat_state: "snd (flatBinaryExpression n cb st) = foldl (\<lambda>s x. cb x s) st (plusNodes n)"
  by (induction n cb st rule: flatBinaryExpression.induct) (auto split: prod.splits)

lemma flat_leaves: "fst (flatBinaryExpression n cb st) = plusLeaves n"
  by (induction n cb st rule: flatBinaryExpression.induct) (auto split: prod.splits)

lemma foldl_pushUsed_distinct:
  "distinct (map nodeRange used) \<Longrightarrow> distinct (map nodeRange (foldl (\<lambda>s x. pushUsed x s) used ns))"
  by (induction ns arbitrary: used) (simp_all add: pushUsed_distinct)

lemma leafText_distinct:
  "distinct (map nodeRange used) \<Longrightarrow> distinct (map nodeRange (snd (leafText n used)))"
  by (cases n) (simp_all add: pushUsed_distinct)

lemma mapLeafText_distinct:
  "distinct (map nodeRange used) \<Longrightarrow> distinct (map nodeRange (snd (mapLeafText ns used)))"
proof (induction ns arbitrary: used)
  case Nil then show ?case by simp
next
  case (Cons n ns)
  from Cons.IH [OF leafText_distinct [OF Cons.prems, of n]]
  show ?case by (auto split: prod.splits)
qed

lemma visit_distinct:
  assumes "visit code n st = Inr st'" "distinct (map nodeRange (usedNodes st))"
  shows "distinct (map nodeRange (usedNodes st'))"
proof (cases n)
  case (StringLiteral s e v)
  with assms show ?thesis by (auto simp: pushUsed_distinct split: if_splits)
next
  case (TemplateLiteral s e qs es)
  with assms show ?thesis by (auto simp: pushUsed_distinct split: if_splits)
next
  case (BinaryExpression s e opr l r)
  let ?n = "BinaryExpression s e opr l r"
  have d1: "distinct (map nodeRange (pushUsed ?n (usedNodes st)))"
    by (rule pushUsed_distinct [OF assms(2)])
  have d2: "distinct (map nodeRange (snd (flatBinaryExpression ?n pushUsed (pushUsed ?n (usedNodes st)))))"
    unfolding flat_state by (rule foldl_pushUsed_distinct [OF d1])
  have d3: "distinct (map nodeRange (snd (mapLeafText (fst (flatBinaryExpression ?n pushUsed (pushUsed ?n (usedNodes st))))
               (snd (flatBinaryExpression ?n pushUsed (pushUsed ?n (usedNodes st)))))))"
    by (rule mapLeafText_distinct [OF d2])
  from assms(1) show ?thesis
    unfolding BinaryExpression visit.simps Let_def
    using assms(2) d1 d3
    by (auto split: if_splits prod.splits bool.splits simp del: flatBinaryExpression.simps)
next
  case (OtherNode s e cs)
  with assms show ?thesis by auto
qed

lemma visitAll_distinct:
  "distinct (map nodeRange (usedNodes st)) \<Longrightarrow>
   distinct (map nodeRange (usedNodes (snd (visitAll code ns st))))"
proof (induction ns arbitrary: st)
  case Nil then show ?case by simp
next
  case (Cons n ns)
  show ?case
  proof (cases "visit code n st")
    case (Inl err)
    then show ?thesis using Cons.prems by simp
  next
    case (Inr st')
    from Cons.IH [OF visit_distinct [OF Inr Cons.prems]] Inr show ?thesis by simp
  qed
qed


text \<open>
  C8. The claimed nodes never hold two entries with the same byte range: pushUsed on a
  node whose range is present changes nothing, after pushUsed the node is found by
  hasUsedSet, pushUsed keeps the ranges distinct, and so does every sequence of visitor
  calls of one extraction, which starts from no claimed node.
\<close>

theorem usedNodes_ranges_distinct:
  "(hasUsedSet used n \<longrightarrow> pushUsed n used = used)
   \<and> hasUsedSet (pushUsed n used) n
   \<and> (distinct (map nodeRange used) \<longrightarrow> distinct (map nodeRange (pushUsed n used)))
   \<and> distinct (map nodeRange (usedNodes (snd (visitAll code ns
         \<lparr>zhStrSet = [], usedNodes = [], lastIndex = li\<rparr>))))"
  using pushUsed_present [of used n] pushUsed_has [of n used] pushUsed_distinct [of used n]
    visitAll_distinct [of "\<lparr>zhStrSet = [], usedNodes = [], lastIndex = li\<rparr>" code ns]
  by simp

theorem usedNodes_ranges_distinct_witness:
  "hasUsedSet [StringLiteral 1 4 [0x61]] (OtherNode 1 4 [])
   \<and> pushUsed (OtherNode 1 4 []) [StringLiteral 1 4 [0x61]] = [StringLiteral 1 4 [0x61]]
   \<and> distinct (map nodeRange [StringLiteral 1 4 [0x61]])
   \<and> distinct (map nodeRange (pushUsed (OtherNode 1 4 []) [StringLiteral 1 4 [0x61]]))"
proof -
  have h: "hasUsedSet [StringLiteral 1 4 [0x61]] (OtherNode 1 4 [])"
    by (simp add: hasUsedSet_def)
  have d: "distinct (map nodeRange [StringLiteral 1 4 [0x61]])" by simp
  show ?thesis
    using h d usedNodes_ranges_distinct [of "[StringLiteral 1 4 [0x61]]" "OtherNode 1 4 []" "[]" "[]" 0]
    by simp
qed

section \<open>Properties of flatBinaryExpression\<close>

lemma plusNodes_isPlus: "x \<in> set (plusNodes n) \<Longrightarrow> isPlus x"
  by (induction n rule: plusNodes.induct) (auto split: if_splits)

lemma plusLeaves_not_plus: "x \<in> set (plusLeaves n) \<Longrightarrow> \<not> isPlus x"
  by (induction n rule: plusLeaves.induct) (auto split: if_splits)

lemma plusLeaves_nonempty: "plusLeaves n \<noteq> []"
  by (induction n rule: plusLeaves.induct) auto

lemma plusLeaves_count: "length (plusLeaves n) = Suc (length (plusNodes n))"
  by (induction n rule: plusLeaves.induct) auto

lemma not_plus_flat: "\<not> isPlus n \<Longrightarrow> flatBinaryExpression n cb st = ([n], st)"
  by (cases n) auto

lemma plusLeaves_inside:
  "plusOffsetsOk n \<Longrightarrow> x \<in> set (plusLeaves n) \<Longrightarrow> nstart n \<le> nend n \<Longrightarrow> nstart n \<le> nstart x \<and> nend x \<le> nend n"
  by (induction n rule: plusLeaves.induct) (fastforce split: if_splits)+

lemma plusLeaves_sorted:
  "plusOffsetsOk n \<Longrightarrow> nstart n \<le> nend n \<Longrightarrow> sorted_wrt (\<lambda>a b. nend a \<le> nstart b) (plusLeaves n)"
proof (induction n rule: plusLeaves.induct)
  case (1 s e opr l r)
  show ?case
  proof (cases "opr = ''+''")
    case True
    with 1 have ok: "plusOffsetsOk l" "plusOffsetsOk r" "nstart l \<le> nend l" "nstart r \<le> nend r" "nend l \<le> nstart r"
      by auto
    have "\<forall>a\<in>set (plusLeaves l). \<forall>b\<in>set (plusLeaves r). nend a \<le> nstart b"
      using plusLeaves_inside [OF ok(1) _ ok(3)] plusLeaves_inside [OF ok(2) _ ok(4)] ok(5)
      by (meson order_trans)
    with 1 True ok show ?thesis by (simp add: sorted_wrt_append)
  next
    case False
    then show ?thesis by simp
  qed
qed simp_all

text \<open>
  C9. For every node, callback and state, flatBinaryExpression returns the operands of the
  chain of \<open>+\<close> from left to right: the list is not empty and holds no \<open>+\<close> expression, and
  with the offsets of a parser every operand ends before the next one starts. The callback
  is called on the \<open>+\<close> nodes of the chain, parent first and each once (with a callback that
  records its argument the record is exactly that list, one entry less than there are
  operands), and on nothing else; a node that is not a \<open>+\<close> expression comes back alone and
  the state is untouched.
\<close>

theorem flatBinaryExpression_leaves:
  "fst (flatBinaryExpression n cb st) = plusLeaves n
   \<and> plusLeaves n \<noteq> []
   \<and> (\<forall>x \<in> set (plusLeaves n). \<not> isPlus x)
   \<and> (plusOffsetsOk n \<and> nstart n \<le> nend n
        \<longrightarrow> sorted_wrt (\<lambda>a b. nend a \<le> nstart b) (plusLeaves n))
   \<and> snd (flatBinaryExpression n cb st) = foldl (\<lambda>s x. cb x s) st (plusNodes n)
   \<and> snd (flatBinaryExpression n (\<lambda>x called. called @ [x]) []) = plusNodes n
   \<and> (\<forall>x \<in> set (plusNodes n). isPlus x)
   \<and> length (plusLeaves n) = Suc (length (plusNodes n))
   \<and> (\<not> isPlus n \<longrightarrow> flatBinaryExpression n cb st = ([n], st))"
proof -
  have rec: "foldl (\<lambda>s x. s @ [x]) acc xs = acc @ xs" for acc xs :: "node list"
    by (induction xs arbitrary: acc) simp_all
  have called: "snd (flatBinaryExpression n (\<lambda>x called. called @ [x]) []) = plusNodes n"
    unfolding flat_state rec by simp
  show ?thesis
    using flat_leaves [of n cb st] plusLeaves_nonempty [of n] plusLeaves_not_plus [of _ n]
      plusLeaves_sorted [of n] flat_state [of n cb st] called plusNodes_isPlus [of _ n]
      plusLeaves_count [of n] not_plus_flat [of n cb st]
    by blast
qed

theorem flatBinaryExpression_leaves_witness:
  "flatBinaryExpression
     (BinaryExpression 1 17 ''+''
        (BinaryExpression 1 10 ''+'' (StringLiteral 1 4 [0x5F20]) (StringLiteral 7 10 [0x4E09]))
        (OtherNode 13 17 []))
     (\<lambda>x called. called @ [x]) []
   = ([StringLiteral 1 4 [0x5F20], StringLiteral 7 10 [0x4E09], OtherNode 13 17 []],
      [BinaryExpression 1 17 ''+''
         (BinaryExpression 1 10 ''+'' (StringLiteral 1 4 [0x5F20]) (StringLiteral 7 10 [0x4E09]))
         (OtherNode 13 17 []),
       BinaryExpression 1 10 ''+'' (StringLiteral 1 4 [0x5F20]) (StringLiteral 7 10 [0x4E09])])
   \<and> sorted_wrt (\<lambda>a b. nend a \<le> nstart b)
        [StringLiteral 1 4 [0x5F20], StringLiteral 7 10 [0x4E09], OtherNode 13 17 []]
   \<and> flatBinaryExpression (OtherNode 13 17 []) (\<lambda>x called. called @ [x]) [] = ([OtherNode 13 17 []], [])"
  using flatBinaryExpression_leaves
    [of "BinaryExpression 1 17 ''+''
          (BinaryExpression 1 10 ''+'' (StringLiteral 1 4 [0x5F20]) (StringLiteral 7 10 [0x4E09]))
          (OtherNode 13 17 [])" "\<lambda>x called. called @ [x]" "[]"]
    flatBinaryExpression_leaves [of "OtherNode 13 17 []" "\<lambda>x called. called @ [x]" "[]"]
  by simp

section \<open>Properties of the target-script test\<close>

lemma hasZh_iff: "hasZh s \<longleftrightarrow> (\<exists>c\<in>set s. inZhRange c)"
  by (simp add: hasZh_def list_ex_iff)

lemma zhRegExec_Some:
  "zhRegExec s i = Some e \<Longrightarrow> i < e \<and> e \<le> length s \<and> inZhRange (s ! (e - 1))"
proof (induction s i rule: zhRegExec.induct)
  case (1 s i)
  show ?case
  proof (cases "length s < i")
    case True
    with "1.prems" show ?thesis by (subst (asm) zhRegExec.simps) simp
  next
    case False
    show ?thesis
    proof (cases "i < length s \<and> inZhRange (s ! i)")
      case True
      with False "1.prems" show ?thesis by (subst (asm) zhRegExec.simps) auto
    next
      case nomatch: False
      from "1.prems" False nomatch have "zhRegExec s (i + 1) = Some e"
        by (subst (asm) zhRegExec.simps) (simp split: if_splits)
      from "1.IH" [OF False nomatch this] show ?thesis by simp
    qed
  qed
qed

lemma zhRegExec_None:
  "(\<And>j. i \<le> j \<Longrightarrow> j < length s \<Longrightarrow> \<not> inZhRange (s ! j)) \<Longrightarrow> zhRegExec s i = None"
proof (induction s i rule: zhRegExec.induct)
  case (1 s i)
  show ?case
  proof (cases "length s < i")
    case True
    then show ?thesis by (subst zhRegExec.simps) simp
  next
    case False
    have nomatch: "\<not> (i < length s \<and> inZhRange (s ! i))" using "1.prems" [of i] by auto
    have "zhRegExec s (i + 1) = None"
      by (rule "1.IH" [OF False nomatch]) (use "1.prems" in simp)
    with False nomatch show ?thesis by (subst zhRegExec.simps) simp
  qed
qed

lemma surrogate_not_zh: "isHighSurrogate c \<or> isLowSurrogate c \<Longrightarrow> \<not> inZhRange c"
  unfolding isHighSurrogate_def isLowSurrogate_def inZhRange_def
  by (auto simp: word_le_nat_alt)

lemma zhRegTest_single0: "zhRegTest [c] 0 = (if inZhRange c then (True, 1) else (False, 0))"
proof (cases "inZhRange c")
  case True
  then show ?thesis unfolding zhRegTest_def by (subst zhRegExec.simps) simp
next
  case False
  then have "zhRegExec [c] 0 = None" by (intro zhRegExec_None) simp
  with False show ?thesis by (simp add: zhRegTest_def)
qed

lemma zhRegTest_single_pos: "0 < li \<Longrightarrow> zhRegTest [c] li = (False, 0)"
proof -
  assume "0 < li"
  then have "zhRegExec [c] li = None" by (intro zhRegExec_None) simp
  then show ?thesis by (simp add: zhRegTest_def)
qed

lemma zhRegTest_pair: "isHighSurrogate c \<Longrightarrow> isLowSurrogate d \<Longrightarrow> zhRegTest [c, d] li = (False, 0)"
proof -
  assume h: "isHighSurrogate c" "isLowSurrogate d"
  have "zhRegExec [c, d] li = None"
  proof (rule zhRegExec_None)
    fix j assume "j < length [c, d]"
    then have "j = 0 \<or> j = 1" by auto
    then show "\<not> inZhRange ([c, d] ! j)" using h surrogate_not_zh by auto
  qed
  then show ?thesis by (simp add: zhRegTest_def)
qed

lemma codePoints_ok: "cp \<in> set (codePoints s) \<Longrightarrow> codePointOk cp"
  by (induction s rule: codePoints.induct) (auto simp: codePointOk_def split: if_splits)

lemma concat_codePoints: "concat (codePoints s) = s"
  by (induction s rule: codePoints.induct) auto

lemma zhRegTest_ok0:
  "codePointOk cp \<Longrightarrow> zhRegTest cp 0 = (if hasZh cp then (True, 1) else (False, 0))"
  unfolding codePointOk_def
  by (auto simp: zhRegTest_single0 zhRegTest_pair hasZh_def surrogate_not_zh)

lemma zhRegTest_ok_pos: "codePointOk cp \<Longrightarrow> 0 < li \<Longrightarrow> zhRegTest cp li = (False, 0)"
  unfolding codePointOk_def by (auto simp: zhRegTest_single_pos zhRegTest_pair)

lemma hasZhStrLoop0:
  "(\<And>cp. cp \<in> set cps \<Longrightarrow> codePointOk cp) \<Longrightarrow>
   hasZhStrLoop cps 0 = (if hasZh (concat cps) then (True, 1) else (False, 0))"
proof (induction cps)
  case Nil
  then show ?case by (simp add: hasZh_def)
next
  case (Cons cp cps)
  have ok: "codePointOk cp" using Cons.prems by simp
  have ih: "hasZhStrLoop cps 0 = (if hasZh (concat cps) then (True, 1) else (False, 0))"
    using Cons by simp
  show ?case by (simp add: zhRegTest_ok0 [OF ok] ih hasZh_def)
qed

lemma hasZhStr0: "hasZhStr s 0 = (if hasZh s then (True, 1) else (False, 0))"
  unfolding hasZhStr_def using hasZhStrLoop0 [of "codePoints s"] codePoints_ok
  by (simp add: concat_codePoints)

lemma hasZhStr_pos:
  "0 < li \<Longrightarrow> hasZhStr s li =
     (case codePoints s of [] \<Rightarrow> (False, li)
      | cp # cps \<Rightarrow> (if hasZh (concat cps) then (True, 1) else (False, 0)))"
proof (cases "codePoints s")
  case Nil
  then show ?thesis by (simp add: hasZhStr_def)
next
  case (Cons cp cps)
  assume li: "0 < li"
  have ok: "codePointOk cp" using codePoints_ok [of cp s] Cons by simp
  have oks: "\<And>x. x \<in> set cps \<Longrightarrow> codePointOk x" using codePoints_ok [of _ s] Cons by simp
  show ?thesis unfolding hasZhStr_def Cons
    by (simp add: zhRegTest_ok_pos [OF ok li] hasZhStrLoop0 [OF oks])
qed

lemma hasZhStr_True: "hasZhStr s li = (True, li') \<Longrightarrow> hasZh s \<and> li' = 1"
proof (cases "li = 0")
  case True
  assume "hasZhStr s li = (True, li')"
  with True show ?thesis by (auto simp: hasZhStr0 split: if_splits)
next
  case False
  assume h: "hasZhStr s li = (True, li')"
  from False have li: "0 < li" by simp
  show ?thesis
  proof (cases "codePoints s")
    case Nil
    with h li show ?thesis by (simp add: hasZhStr_pos)
  next
    case (Cons cp cps)
    with h li have z: "hasZh (concat cps)" and l: "li' = 1"
      by (auto simp: hasZhStr_pos split: if_splits)
    have "s = cp @ concat cps" using concat_codePoints [of s] Cons by simp
    with z l show ?thesis by (auto simp: hasZh_def)
  qed
qed

lemma hasZhStr_no_zh: "\<not> hasZh s \<Longrightarrow> fst (hasZhStr s li) = False"
  using hasZhStr_True [of s li] by (cases "hasZhStr s li") auto

section \<open>Properties of the returned list\<close>

lemma zh_not_space: "inZhRange c \<Longrightarrow> \<not> isWhiteSpace c"
  unfolding inZhRange_def isWhiteSpace_def
  by (auto simp: word_le_nat_alt)

lemma dropWhile_keeps: "x \<in> set xs \<Longrightarrow> \<not> P x \<Longrightarrow> x \<in> set (dropWhile P xs)"
  by (induction xs) auto

lemma trim_keeps: "x \<in> set s \<Longrightarrow> \<not> isWhiteSpace x \<Longrightarrow> x \<in> set (trim s)"
  unfolding trim_def by (simp add: dropWhile_keeps)

lemma trim_subset: "set (trim s) \<subseteq> set s"
proof
  fix x assume "x \<in> set (trim s)"
  then have "x \<in> set (dropWhile isWhiteSpace (rev (dropWhile isWhiteSpace s)))"
    by (simp add: trim_def)
  then have "x \<in> set (rev (dropWhile isWhiteSpace s))" by (rule set_dropWhileD)
  then have "x \<in> set (dropWhile isWhiteSpace s)" by simp
  then show "x \<in> set s" by (rule set_dropWhileD)
qed

lemma hasZh_trim: "hasZh (trim s) = hasZh s"
  unfolding hasZh_iff using trim_keeps zh_not_space trim_subset by blast

lemma rmREgMatchAt_iff:
  "rmREgMatchAt s i \<longleftrightarrow>
     (i = 0 \<and> take 2 s = placeholder) \<or> (2 \<le> length s \<and> i = length s - 2 \<and> drop (length s - 2) s = placeholder)"
proof -
  have "take 2 (drop i s) = placeholder \<and> i + 2 = length s
        \<longleftrightarrow> 2 \<le> length s \<and> i = length s - 2 \<and> drop (length s - 2) s = placeholder"
  proof
    assume h: "take 2 (drop i s) = placeholder \<and> i + 2 = length s"
    then have i: "i = length s - 2" and l: "2 \<le> length s" by auto
    from h have "length s - i = 2" by linarith
    then have "length (drop i s) = 2" by simp
    then have "take 2 (drop i s) = drop i s" by simp
    with h i l show "2 \<le> length s \<and> i = length s - 2 \<and> drop (length s - 2) s = placeholder"
      by simp
  next
    assume h: "2 \<le> length s \<and> i = length s - 2 \<and> drop (length s - 2) s = placeholder"
    then show "take 2 (drop i s) = placeholder \<and> i + 2 = length s"
      by (auto simp: placeholder_def)
  qed
  then show ?thesis unfolding rmREgMatchAt_def by blast
qed

lemma find_least:
  "P i \<Longrightarrow> i < n \<Longrightarrow> (\<And>j. j < i \<Longrightarrow> \<not> P j) \<Longrightarrow> List.find P [0 ..< n] = Some i"
  by (simp add: find_Some_iff) (metis add_0 nth_upt order_less_trans)

lemma replaceRmREg_cases:
  "replaceRmREg s =
     (if take 2 s = placeholder then drop 2 s
      else if 2 \<le> length s \<and> drop (length s - 2) s = placeholder then take (length s - 2) s
      else s)"
proof (cases "take 2 s = placeholder")
  case True
  then have "rmREgMatchAt s 0" by (simp add: rmREgMatchAt_iff)
  then have fnd: "List.find (rmREgMatchAt s) [0 ..< length s + 1] = Some 0"
    by (intro find_least) simp_all
  show ?thesis unfolding replaceRmREg_def fnd using True by (simp add: numeral_2_eq_2)
next
  case nolead: False
  show ?thesis
  proof (cases "2 \<le> length s \<and> drop (length s - 2) s = placeholder")
    case True
    then have m: "rmREgMatchAt s (length s - 2)" by (simp add: rmREgMatchAt_iff)
    have fnd: "List.find (rmREgMatchAt s) [0 ..< length s + 1] = Some (length s - 2)"
      using m nolead by (intro find_least) (auto simp: rmREgMatchAt_iff)
    show ?thesis unfolding replaceRmREg_def fnd using True nolead by simp
  next
    case False
    with nolead have "\<And>i. \<not> rmREgMatchAt s i" by (auto simp: rmREgMatchAt_iff)
    then have fnd: "List.find (rmREgMatchAt s) [0 ..< length s + 1] = None"
      by (simp add: find_None_iff)
    show ?thesis unfolding replaceRmREg_def fnd using False nolead by auto
  qed
qed

lemma placeholder_not_zh: "\<not> hasZh placeholder"
  by (simp add: hasZh_def placeholder_def inZhRange_def)

lemma hasZh_append: "hasZh (a @ b) = (hasZh a \<or> hasZh b)"
  by (auto simp: hasZh_def)

lemma hasZh_replaceRmREg: "hasZh (replaceRmREg s) = hasZh s"
proof -
  have a: "hasZh s = (hasZh (take 2 s) \<or> hasZh (drop 2 s))"
    using hasZh_append [of "take 2 s" "drop 2 s"] by simp
  have b: "hasZh s = (hasZh (take (length s - 2) s) \<or> hasZh (drop (length s - 2) s))"
    using hasZh_append [of "take (length s - 2) s" "drop (length s - 2) s"] by simp
  show ?thesis
    unfolding replaceRmREg_cases using a b placeholder_not_zh by (auto split: if_splits)
qed

lemma hasZh_postProcess: "hasZh (postProcess v) = hasZh v"
  by (simp add: postProcess_def hasZh_replaceRmREg hasZh_trim)

lemma hasZh_nonempty: "hasZh v \<Longrightarrow> v \<noteq> []"
  by (auto simp: hasZh_def)

lemma filterHasZhStr_subset:
  "v \<in> set (fst (filterHasZhStr vs li)) \<Longrightarrow> v \<in> set vs \<and> hasZh v"
proof (induction vs arbitrary: li)
  case Nil then show ?case by simp
next
  case (Cons a vs)
  obtain b li1 where h: "hasZhStr a li = (b, li1)" by (cases "hasZhStr a li")
  obtain r li2 where f: "filterHasZhStr vs li1 = (r, li2)" by (cases "filterHasZhStr vs li1")
  from Cons.prems h f have "v \<in> set (if b then a # r else r)" by simp
  then consider "b" "v = a" | "v \<in> set r" by (auto split: if_splits)
  then show ?case
  proof cases
    case 1
    with h hasZhStr_True [of a li li1] show ?thesis by simp
  next
    case 2
    with Cons.IH [of li1] f show ?thesis by simp
  qed
qed

lemma returnList_filter: "fst (returnList zs li) = map postProcess (fst (filterHasZhStr zs li))"
proof -
  have "\<And>v. v \<in> set (fst (filterHasZhStr zs li)) \<Longrightarrow> postProcess v \<noteq> []"
    using filterHasZhStr_subset hasZh_postProcess hasZh_nonempty by blast
  then have "filter (\<lambda>v. v \<noteq> []) (map postProcess (fst (filterHasZhStr zs li))) = map postProcess (fst (filterHasZhStr zs li))"
    by (simp add: filter_id_conv)
  then show ?thesis unfolding returnList_def by (cases "filterHasZhStr zs li") simp
qed

lemma returnList_elems:
  "v \<in> set (fst (returnList zs li)) \<Longrightarrow> v \<noteq> [] \<and> hasZh v \<and> (\<exists>z \<in> set zs. hasZh z \<and> v = postProcess z)"
  unfolding returnList_filter
  using filterHasZhStr_subset hasZh_postProcess hasZh_nonempty by (metis (no_types, lifting) imageE list.set_map)

lemma hasZhStr_two_zh: "inZhRange a \<Longrightarrow> inZhRange b \<Longrightarrow> hasZhStr (a # b # r) li = (True, 1)"
proof (cases "li = 0")
  case True
  assume "inZhRange a" "inZhRange b"
  with True show ?thesis by (simp add: hasZhStr0 hasZh_def)
next
  case False
  assume z: "inZhRange a" "inZhRange b"
  then have "\<not> isHighSurrogate a" using surrogate_not_zh by blast
  then have cp: "codePoints (a # b # r) = [a] # codePoints (b # r)" by simp
  have "hasZh (concat (codePoints (b # r)))" unfolding concat_codePoints using z by (simp add: hasZh_def)
  with False cp show ?thesis by (simp add: hasZhStr_pos)
qed

lemma filterHasZhStr_keeps:
  "(\<And>x. hasZhStr v x = (True, 1)) \<Longrightarrow> v \<in> set zs \<Longrightarrow> v \<in> set (fst (filterHasZhStr zs li))"
proof (induction zs arbitrary: li)
  case Nil
  then show ?case by simp
next
  case (Cons a zs)
  obtain b li1 where h: "hasZhStr a li = (b, li1)" by (cases "hasZhStr a li")
  obtain r li2 where f: "filterHasZhStr zs li1 = (r, li2)" by (cases "filterHasZhStr zs li1")
  show ?case
  proof (cases "v = a")
    case True
    with h Cons.prems(1) [of li] have "b" by simp
    with True h f show ?thesis by simp
  next
    case False
    with Cons.prems have "v \<in> set zs" by simp
    from Cons.IH [OF Cons.prems(1) this, of li1] f have "v \<in> set r" by simp
    with h f show ?thesis by simp
  qed
qed

text \<open>
  What the return expression does to the candidates it keeps. Every value that
  pickZhStrByAst returns is a candidate after post-processing: the
  candidate is trimmed, and one placeholder token is removed from it, the leading one if the
  trimmed value starts with the token, otherwise the trailing one if it ends with the token;
  nothing else is removed, so placeholders inside stay. No returned value is empty, every
  returned value holds a target-script character, and a candidate without one is never
  kept. The candidate \<open>{}\<close> alone gives no value, and the candidate made of U+60A8, U+597D
  and \<open>{}\<close> is kept, as U+60A8 U+597D, whatever \<open>lastIndex\<close> is and whatever the other
  candidates are.
\<close>

theorem returnList_postProcess:
  "postProcess v =
     (let t = trim v in
      if take 2 t = placeholder then drop 2 t
      else if 2 \<le> length t \<and> drop (length t - 2) t = placeholder then take (length t - 2) t
      else t)
   \<and> fst (returnList zs li) = map postProcess (fst (filterHasZhStr zs li))
   \<and> (\<forall>x \<in> set (fst (returnList zs li)).
         x \<noteq> [] \<and> hasZh x \<and> (\<exists>z \<in> set zs. hasZh z \<and> x = postProcess z))
   \<and> (\<forall>z \<in> set (fst (filterHasZhStr zs li)). z \<in> set zs \<and> hasZh z)
   \<and> fst (returnList [placeholder] li) = []
   \<and> returnList [[0x60A8, 0x597D] @ placeholder] li = ([[0x60A8, 0x597D]], 1)
   \<and> ([0x60A8, 0x597D] @ placeholder \<in> set zs
        \<longrightarrow> [0x60A8, 0x597D] \<in> set (fst (returnList zs li)))"
proof -
  have p: "postProcess v =
     (let t = trim v in
      if take 2 t = placeholder then drop 2 t
      else if 2 \<le> length t \<and> drop (length t - 2) t = placeholder then take (length t - 2) t
      else t)"
    unfolding postProcess_def Let_def by (rule replaceRmREg_cases)
  have e1: "fst (returnList [placeholder] li) = []"
    unfolding returnList_filter using filterHasZhStr_subset [of _ "[placeholder]" li] placeholder_not_zh
    by (cases "fst (filterHasZhStr [placeholder] li)") auto
  have z: "inZhRange (0x60A8 :: 16 word)" "inZhRange (0x597D :: 16 word)"
    by (simp_all add: inZhRange_def)
  have h: "hasZhStr ([0x60A8, 0x597D] @ placeholder) li = (True, 1)"
    using hasZhStr_two_zh [OF z] by simp
  have pp: "postProcess ([0x60A8, 0x597D] @ placeholder) = [0x60A8, 0x597D]"
    by (simp add: postProcess_def trim_def isWhiteSpace_def replaceRmREg_cases placeholder_def)
  have e2: "returnList [[0x60A8, 0x597D] @ placeholder] li = ([[0x60A8, 0x597D]], 1)"
    unfolding returnList_def filterHasZhStr.simps h using pp by simp
  have h': "hasZhStr ([0x60A8, 0x597D] @ placeholder) x = (True, 1)" for x
    using hasZhStr_two_zh [OF z] by simp
  have e3: "[0x60A8, 0x597D] \<in> set (fst (returnList zs li))"
    if m: "[0x60A8, 0x597D] @ placeholder \<in> set zs"
  proof -
    have "[0x60A8, 0x597D] @ placeholder \<in> set (fst (filterHasZhStr zs li))"
      by (rule filterHasZhStr_keeps [OF h' m])
    then have "postProcess ([0x60A8, 0x597D] @ placeholder) \<in> set (fst (returnList zs li))"
      unfolding returnList_filter by (simp del: append.simps)
    then show ?thesis unfolding pp .
  qed
  show ?thesis
    using p returnList_filter [of zs li] returnList_elems [of _ zs li]
      filterHasZhStr_subset [of _ zs li] e1 e2 e3
    by blast
qed

theorem returnList_postProcess_witness:
  "postProcess ([0x20] @ placeholder @ [0x597D] @ placeholder @ [0x597D] @ placeholder @ [0x20])
     = [0x597D] @ placeholder @ [0x597D] @ placeholder
   \<and> postProcess ([0x597D] @ placeholder @ [0x597D] @ placeholder)
     = [0x597D] @ placeholder @ [0x597D]
   \<and> fst (returnList [[0x61], [0x597D, 0x7684], placeholder, [0x662F]] 0)
     = [[0x597D, 0x7684], [0x662F]]
   \<and> [0x60A8, 0x597D] \<in> set (fst (returnList [[0x61], [0x60A8, 0x597D] @ placeholder] 1))"
proof -
  let ?v1 = "[0x20] @ placeholder @ [0x597D] @ placeholder @ [0x597D] @ placeholder @ [0x20]"
  let ?v2 = "[0x597D] @ placeholder @ [0x597D] @ placeholder"
  let ?zs1 = "[[0x61], [0x597D, 0x7684], placeholder, [0x662F]]"
  let ?zs2 = "[[0x61], [0x60A8, 0x597D] @ placeholder]"
  note T1 = returnList_postProcess [of ?v1 ?zs1 0]
  note T2 = returnList_postProcess [of ?v2 ?zs2 1]
  have a: "trim ?v1 = placeholder @ [0x597D] @ placeholder @ [0x597D] @ placeholder"
    by (simp add: trim_def isWhiteSpace_def placeholder_def)
  have b: "trim ?v2 = ?v2"
    by (simp add: trim_def isWhiteSpace_def placeholder_def)
  have f: "fst (filterHasZhStr ?zs1 0) = [[0x597D, 0x7684], [0x662F]]"
    by (simp add: hasZhStr0 hasZhStr_pos hasZh_def inZhRange_def placeholder_def isHighSurrogate_def)
  have pp: "postProcess [0x597D, 0x7684] = [0x597D, 0x7684]" "postProcess [0x662F] = [0x662F]"
    by (simp_all add: postProcess_def trim_def isWhiteSpace_def replaceRmREg_cases placeholder_def)
  from T1 have "postProcess ?v1 =
     (let t = trim ?v1 in
      if take 2 t = placeholder then drop 2 t
      else if 2 \<le> length t \<and> drop (length t - 2) t = placeholder then take (length t - 2) t
      else t)"
    by blast
  then have c1: "postProcess ?v1 = [0x597D] @ placeholder @ [0x597D] @ placeholder"
    unfolding a by (simp add: placeholder_def)
  from T2 have "postProcess ?v2 =
     (let t = trim ?v2 in
      if take 2 t = placeholder then drop 2 t
      else if 2 \<le> length t \<and> drop (length t - 2) t = placeholder then take (length t - 2) t
      else t)"
    by blast
  then have c2: "postProcess ?v2 = [0x597D] @ placeholder @ [0x597D]"
    unfolding b by (simp add: placeholder_def)
  from T1 have "fst (returnList ?zs1 0) = map postProcess (fst (filterHasZhStr ?zs1 0))"
    by blast
  then have c3: "fst (returnList ?zs1 0) = [[0x597D, 0x7684], [0x662F]]"
    unfolding f by (simp add: pp)
  have m: "[0x60A8, 0x597D] @ placeholder \<in> set ?zs2" by simp
  from T2 m have c4: "[0x60A8, 0x597D] \<in> set (fst (returnList ?zs2 1))" by blast
  show ?thesis using c1 c2 c3 c4 by blast
qed

section \<open>Properties of the visitors\<close>

lemma hasZhStr_fst_False: "\<not> hasZh s \<Longrightarrow> hasZhStr s li = (False, snd (hasZhStr s li))"
  using hasZhStr_no_zh [of s li] by (cases "hasZhStr s li") simp

lemma boring_visit:
  assumes "0 < s" "0 < e" "\<not> hasUsedSet (usedNodes st) (BinaryExpression s e ''+'' l r)"
    "\<not> hasZh (substring code s e)"
  shows "visit code (BinaryExpression s e ''+'' l r) st =
         Inr (st\<lparr>usedNodes := usedNodes st @ [BinaryExpression s e ''+'' l r],
                 lastIndex := snd (hasZhStr (substring code s e) (lastIndex st))\<rparr>)"
proof -
  obtain li' where h: "hasZhStr (substring code s e) (lastIndex st) = (False, li')"
    using hasZhStr_fst_False [OF assms(4)] by blast
  show ?thesis
    using assms(1-3) by (simp add: pushUsed_def Let_def h del: flatBinaryExpression.simps)
qed

lemma hasUsedSet_append1:
  "hasUsedSet (used @ [n]) x \<longleftrightarrow> hasUsedSet used x \<or> nodeRange n = nodeRange x"
  by (auto simp: hasUsedSet_iff)


text \<open>
  C3, as the code has it. A \<open>+\<close> expression that is visited unclaimed, at offsets other
  than 0, and whose source span holds no target-script character is claimed, and nothing
  else happens: no candidate is recorded from it and it is not flattened, so its operands
  stay unclaimed. The traversal goes on to the operands, and a string literal among them is
  then visited on its own: its trimmed value is recorded as a candidate, whatever that
  value holds.
\<close>

theorem boring_concatenation:
  "0 < s \<and> 0 < e \<and> \<not> hasUsedSet (usedNodes st) (BinaryExpression s e ''+'' l r)
   \<and> \<not> hasZh (substring code s e) \<longrightarrow>
     visit code (BinaryExpression s e ''+'' l r) st =
       Inr (st\<lparr>usedNodes := usedNodes st @ [BinaryExpression s e ''+'' l r],
               lastIndex := snd (hasZhStr (substring code s e) (lastIndex st))\<rparr>)
     \<and> (\<not> hasUsedSet (usedNodes st) x
          \<and> nodeRange x \<noteq> nodeRange (BinaryExpression s e ''+'' l r) \<longrightarrow>
        \<not> hasUsedSet (usedNodes st @ [BinaryExpression s e ''+'' l r]) x)
     \<and> (\<not> hasUsedSet (usedNodes st2) (StringLiteral a b v) \<longrightarrow>
        visit code (StringLiteral a b v) st2 =
          Inr (st2\<lparr>usedNodes := usedNodes st2 @ [StringLiteral a b v],
                   zhStrSet := setAdd (trim v) (zhStrSet st2)\<rparr>))
     \<and> (l = StringLiteral ls le v \<and> \<not> hasUsedSet (usedNodes st) l
          \<and> nodeRange l \<noteq> nodeRange (BinaryExpression s e ''+'' l r) \<longrightarrow>
        visitAll code [BinaryExpression s e ''+'' l r, l] st =
          (None, st\<lparr>usedNodes := usedNodes st @ [BinaryExpression s e ''+'' l r, l],
                     zhStrSet := setAdd (trim v) (zhStrSet st),
                     lastIndex := snd (hasZhStr (substring code s e) (lastIndex st))\<rparr>))"
proof (intro impI conjI; elim conjE)
  assume a: "0 < s" "0 < e" "\<not> hasUsedSet (usedNodes st) (BinaryExpression s e ''+'' l r)"
    "\<not> hasZh (substring code s e)"
  show "visit code (BinaryExpression s e ''+'' l r) st =
       Inr (st\<lparr>usedNodes := usedNodes st @ [BinaryExpression s e ''+'' l r],
               lastIndex := snd (hasZhStr (substring code s e) (lastIndex st))\<rparr>)"
    by (rule boring_visit [OF a])
next
  assume "\<not> hasUsedSet (usedNodes st) x"
    "nodeRange x \<noteq> nodeRange (BinaryExpression s e ''+'' l r)"
  then show "\<not> hasUsedSet (usedNodes st @ [BinaryExpression s e ''+'' l r]) x"
    by (simp add: hasUsedSet_append1)
next
  assume "\<not> hasUsedSet (usedNodes st2) (StringLiteral a b v)"
  then show "visit code (StringLiteral a b v) st2 =
          Inr (st2\<lparr>usedNodes := usedNodes st2 @ [StringLiteral a b v],
                   zhStrSet := setAdd (trim v) (zhStrSet st2)\<rparr>)"
    by (simp add: pushUsed_def)
next
  assume a: "0 < s" "0 < e" "\<not> hasUsedSet (usedNodes st) (BinaryExpression s e ''+'' l r)"
    "\<not> hasZh (substring code s e)"
  assume b: "l = StringLiteral ls le v" "\<not> hasUsedSet (usedNodes st) l"
    "nodeRange l \<noteq> nodeRange (BinaryExpression s e ''+'' l r)"
  let ?n = "BinaryExpression s e ''+'' l r"
  let ?st1 = "st\<lparr>usedNodes := usedNodes st @ [?n],
               lastIndex := snd (hasZhStr (substring code s e) (lastIndex st))\<rparr>"
  have nu: "\<not> hasUsedSet (usedNodes ?st1) l"
    using b(2,3) by (simp add: hasUsedSet_append1)
  have "visit code l ?st1 = Inr (?st1\<lparr>usedNodes := pushUsed l (usedNodes ?st1),
                   zhStrSet := setAdd (trim v) (zhStrSet ?st1)\<rparr>)"
    using nu unfolding b(1) by simp
  then have v2: "visit code l ?st1 = Inr (st\<lparr>usedNodes := usedNodes st @ [?n, l],
                     zhStrSet := setAdd (trim v) (zhStrSet st),
                     lastIndex := snd (hasZhStr (substring code s e) (lastIndex st))\<rparr>)"
    using nu by (simp add: pushUsed_def)
  show "visitAll code [?n, l] st =
          (None, st\<lparr>usedNodes := usedNodes st @ [?n, l],
                     zhStrSet := setAdd (trim v) (zhStrSet st),
                     lastIndex := snd (hasZhStr (substring code s e) (lastIndex st))\<rparr>)"
    unfolding visitAll.simps boring_visit [OF a] using v2 by simp
qed

theorem boring_concatenation_witness:
  "visitAll escapedCode [escapedExpr, StringLiteral 4 7 [0x61]]
     \<lparr>zhStrSet = [], usedNodes = [], lastIndex = 0\<rparr>
   = (None, \<lparr>zhStrSet = [[0x61]], usedNodes = [escapedExpr, StringLiteral 4 7 [0x61]],
              lastIndex = 0\<rparr>)"
proof -
  have h: "\<not> hasZh (substring escapedCode 4 24)"
    by (simp add: substring_def escapedCode_def asc_def hasZh_def inZhRange_def)
  have t: "hasZhStr (substring escapedCode 4 24) 0 = (False, 0)"
    using h by (simp add: hasZhStr0)
  show ?thesis
    using h boring_concatenation
      [of 4 24 "\<lparr>zhStrSet = [], usedNodes = [], lastIndex = 0\<rparr>"
          "StringLiteral 4 7 [0x61]" "StringLiteral 10 24 [0x4E2D, 0x6587]" escapedCode
          "StringLiteral 10 24 [0x4E2D, 0x6587]"
          "\<lparr>zhStrSet = [], usedNodes = [escapedExpr], lastIndex = 0\<rparr>" 4 7 "[0x61]" 4 7]
    by (simp add: escapedExpr_def hasUsedSet_def pushUsed_def nodeRange_def t setAdd_def trim_def
          isWhiteSpace_def)
qed

lemma escaped_span: "substring escapedCode 4 24 = [0x22, 0x61, 0x22] @ asc '' + ''
     @ [0x22, 0x5C] @ asc ''u4e2d'' @ [0x5C] @ asc ''u6587'' @ [0x22]"
  by (simp add: substring_def escapedCode_def asc_def)

lemma escaped_span_no_zh: "\<not> hasZh (substring escapedCode 4 24)"
  unfolding escaped_span by (simp add: hasZh_def asc_def inZhRange_def)

lemma escaped_span_test: "hasZhStr (substring escapedCode 4 24) 0 = (False, 0)"
  using escaped_span_no_zh by (simp add: hasZhStr0)

lemma escaped_traverse:
  "traverse escapedCode escapedProgram \<lparr>zhStrSet = [], usedNodes = [], lastIndex = 0\<rparr>
   = (None, \<lparr>zhStrSet = [[0x61], [0x4E2D, 0x6587]],
        usedNodes = [escapedExpr, StringLiteral 4 7 [0x61], StringLiteral 10 24 [0x4E2D, 0x6587]],
        lastIndex = 0\<rparr>)"
  unfolding traverse_def escapedProgram_def escapedExpr_def
  by (simp add: escaped_span_test hasUsedSet_def pushUsed_def setAdd_def trim_def isWhiteSpace_def
        del: flatBinaryExpression.simps)


text \<open>
  C3, as the claim has it, fails on the unit \<open>x = "a" + L\<close> with the literal L written
  with escape sequences: the span of the \<open>+\<close> expression holds no target-script character,
  and the value of L is returned all the same.
\<close>

theorem boring_concatenation_counterexample:
  "\<not> hasZh (substring escapedCode 4 24)
   \<and> pickZhStrByAst (\<lambda>_. Some escapedProgram) escapedCode 0 = (Inr [[0x4E2D, 0x6587]], 1)"
proof -
  have f: "filterHasZhStr [[0x61], [0x4E2D, 0x6587]] 0 = ([[0x4E2D, 0x6587]], 1)"
    by (simp add: hasZhStr0 hasZh_def inZhRange_def)
  have pp: "postProcess [0x4E2D, 0x6587] = [0x4E2D, 0x6587]"
    by (simp add: postProcess_def trim_def isWhiteSpace_def replaceRmREg_cases placeholder_def)
  show ?thesis
    using escaped_span_no_zh
    by (simp add: pickZhStrByAst_def escaped_traverse returnList_def f pp del: filterHasZhStr.simps)
qed

section \<open>Extraction of the example units\<close>

text \<open>
  Placed after the start of the text, the expression \<open>"Z" + "S" + name\<close> is flattened
  into the one candidate Z S \<open>{}\<close>; the four nodes are claimed, neither literal is recorded
  on its own, and the value returned is Z S.
\<close>

lemma concatCode_test: "hasZhStr concatCode li = (True, 1)"
proof (cases "li = 0")
  case True
  then show ?thesis by (simp add: hasZhStr0 hasZh_def concatCode_def inZhRange_def)
next
  case False
  then show ?thesis
    by (simp add: hasZhStr_pos hasZh_def concatCode_def inZhRange_def isHighSurrogate_def asc_def)
qed

lemma concat_traverse:
  assumes "0 < k" "substring code k (k + 16) = concatCode"
  shows "traverse code (concatProgram k) \<lparr>zhStrSet = [], usedNodes = [], lastIndex = li\<rparr>
   = (None, \<lparr>zhStrSet = [[0x5F20, 0x4E09] @ placeholder],
        usedNodes = [concatExpr k,
                     BinaryExpression k (k + 9) ''+''
                       (StringLiteral k (k + 3) [0x5F20]) (StringLiteral (k + 6) (k + 9) [0x4E09]),
                     StringLiteral k (k + 3) [0x5F20], StringLiteral (k + 6) (k + 9) [0x4E09]],
        lastIndex = 1\<rparr>)"
  unfolding traverse_def concatProgram_def concatExpr_def
  using assms(1)
  by (simp add: assms(2) concatCode_test hasUsedSet_def pushUsed_def setAdd_def trim_def isWhiteSpace_def)

lemma concat_after_offset0:
  assumes "0 < k" "substring code k (k + 16) = concatCode"
  shows "pickZhStrByAst (\<lambda>_. Some (concatProgram k)) code li = (Inr [[0x5F20, 0x4E09]], 1)"
proof -
  have z: "inZhRange (0x5F20 :: 16 word)" "inZhRange (0x4E09 :: 16 word)"
    by (simp_all add: inZhRange_def)
  have h: "hasZhStr ([0x5F20, 0x4E09] @ placeholder) x = (True, 1)" for x
    using hasZhStr_two_zh [OF z] by simp
  have pp: "postProcess ([0x5F20, 0x4E09] @ placeholder) = [0x5F20, 0x4E09]"
    by (simp add: postProcess_def trim_def isWhiteSpace_def replaceRmREg_cases placeholder_def)
  show ?thesis
    unfolding pickZhStrByAst_def
    by (simp add: concat_traverse [OF assms] returnList_def h pp del: append.simps)
qed

text \<open>
  C1. When the unit is the expression itself, the \<open>+\<close> expression starts at offset 0,
  \<open>!node.start\<close> holds, and the visitor throws: the extraction ends with the exception
  \<open>node.start or node.end is undefined\<close> and records nothing.
\<close>

theorem concat_at_offset0:
  "pickZhStrByAst (\<lambda>_. Some (concatProgram 0)) concatCode li = (Inl StartOrEndUndefined, li)"
  by (simp add: pickZhStrByAst_def traverse_def concatProgram_def concatExpr_def hasUsedSet_def)


lemma assign_traverse:
  "traverse assignCode assignProgram \<lparr>zhStrSet = [], usedNodes = [], lastIndex = li\<rparr>
   = (None, \<lparr>zhStrSet = [[0x662F]], usedNodes = [StringLiteral 4 7 [0x662F]], lastIndex = li\<rparr>)"
  by (simp add: traverse_def assignProgram_def hasUsedSet_def pushUsed_def setAdd_def trim_def isWhiteSpace_def)

lemma assign_first: "pickZhStrByAst (\<lambda>_. Some assignProgram) assignCode 0 = (Inr [[0x662F]], 1)"
proof -
  have t: "hasZhStr [0x662F] 0 = (True, 1)"
    by (simp add: hasZhStr0 hasZh_def inZhRange_def)
  have pp: "postProcess [0x662F] = [0x662F]"
    by (simp add: postProcess_def trim_def isWhiteSpace_def replaceRmREg_cases placeholder_def)
  show ?thesis by (simp add: pickZhStrByAst_def assign_traverse returnList_def t pp)
qed

lemma assign_second:
  "0 < li \<Longrightarrow> pickZhStrByAst (\<lambda>_. Some assignProgram) assignCode li = (Inr [], 0)"
proof -
  assume "0 < li"
  then have t: "hasZhStr [0x662F] li = (False, 0)"
    by (simp add: hasZhStr_pos hasZh_def)
  show ?thesis by (simp add: pickZhStrByAst_def assign_traverse returnList_def t)
qed

text \<open>
  C2. Two extractions of the unit \<open>x = "S"\<close> in a row, the second on the \<open>lastIndex\<close> that
  the first leaves behind: the first returns the value of the literal and leaves
  \<open>lastIndex = 1\<close>; the second starts its test of the same candidate at index 1, finds
  nothing, and returns the empty list.
\<close>

theorem pickZhStrByAst_twice_differs:
  "pickZhStrByAst (\<lambda>_. Some assignProgram) assignCode 0 = (Inr [[0x662F]], 1)
   \<and> pickZhStrByAst (\<lambda>_. Some assignProgram) assignCode 1 = (Inr [], 0)
   \<and> fst (pickZhStrByAst (\<lambda>_. Some assignProgram) assignCode
            (snd (pickZhStrByAst (\<lambda>_. Some assignProgram) assignCode 0)))
       \<noteq> fst (pickZhStrByAst (\<lambda>_. Some assignProgram) assignCode 0)"
  using assign_first assign_second [of 1] by simp

lemma mixed_span_test: "hasZhStr (substring mixedCode 4 11) li = (True, 1)"
proof -
  have s: "substring mixedCode 4 11 = [0x22, 0x4E2D, 0x22] @ asc '' + y''"
    by (simp add: substring_def mixedCode_def asc_def)
  show ?thesis
  proof (cases "li = 0")
    case True
    then show ?thesis unfolding s by (simp add: hasZhStr0 hasZh_def inZhRange_def)
  next
    case False
    then show ?thesis unfolding s
      by (simp add: hasZhStr_pos hasZh_def inZhRange_def isHighSurrogate_def asc_def)
  qed
qed

lemma mixed_traverse:
  "traverse mixedCode mixedProgram \<lparr>zhStrSet = [], usedNodes = [], lastIndex = li\<rparr>
   = (None, \<lparr>zhStrSet = [[0x4E2D] @ placeholder],
              usedNodes = [mixedExpr, StringLiteral 4 7 [0x4E2D]], lastIndex = 1\<rparr>)"
  unfolding traverse_def mixedProgram_def mixedExpr_def
  by (simp add: mixed_span_test hasUsedSet_def pushUsed_def setAdd_def trim_def isWhiteSpace_def)


text \<open>
  C4. The unit \<open>x = "Z" + y\<close> records the one candidate Z \<open>{}\<close>. The candidate holds a
  target-script character, and post-processing turns it into Z, which is not empty. But the
  test of the whole \<open>+\<close> expression has left \<open>lastIndex = 1\<close>, so the filter of the
  return expression starts its test of the first character of the candidate at index 1 and
  misses Z: the candidate is discarded and the extraction returns the empty list.
\<close>

theorem candidate_dropped_by_filter:
  "traverse mixedCode mixedProgram \<lparr>zhStrSet = [], usedNodes = [], lastIndex = li\<rparr>
     = (None, \<lparr>zhStrSet = [[0x4E2D] @ placeholder],
                usedNodes = [mixedExpr, StringLiteral 4 7 [0x4E2D]], lastIndex = 1\<rparr>)
   \<and> hasZh ([0x4E2D] @ placeholder)
   \<and> postProcess ([0x4E2D] @ placeholder) = [0x4E2D]
   \<and> pickZhStrByAst (\<lambda>_. Some mixedProgram) mixedCode li = (Inr [], 0)"
proof -
  have z: "hasZh ([0x4E2D] @ placeholder)" by (simp add: hasZh_def inZhRange_def)
  have pp: "postProcess ([0x4E2D] @ placeholder) = [0x4E2D]"
    by (simp add: postProcess_def trim_def isWhiteSpace_def replaceRmREg_cases placeholder_def)
  have t: "hasZhStr ([0x4E2D] @ placeholder) (Suc 0) = (False, 0)"
    by (simp add: hasZhStr_pos hasZh_def placeholder_def inZhRange_def isHighSurrogate_def)
  have r: "returnList [[0x4E2D] @ placeholder] (Suc 0) = ([], 0)"
    unfolding returnList_def filterHasZhStr.simps t by simp
  have p: "pickZhStrByAst (\<lambda>_. Some mixedProgram) mixedCode li = (Inr [], 0)"
    unfolding pickZhStrByAst_def by (simp add: mixed_traverse r del: append.simps)
  show ?thesis using mixed_traverse z pp p by blast
qed


section \<open>Properties of the file loop\<close>

lemma getCodes_no_zh:
  assumes "\<not> hasZh (fsReadFile env filePath)"
  shows "getCodesFromFile env filePath ext w =
     (Inr [], w\<lparr>zhRegLastIndex := snd (hasZhStr (fsReadFile env filePath) (zhRegLastIndex w))\<rparr>)"
proof -
  obtain li' where h: "hasZhStr (fsReadFile env filePath) (zhRegLastIndex w) = (False, li')"
    using hasZhStr_fst_False [OF assms] by blast
  show ?thesis unfolding getCodesFromFile_def Let_def h by simp
qed

lemma collect_no_zh:
  assumes "\<not> hasZh (fsReadFile env filePath)"
  shows "collectFiles env dir (filePath # rest) textList w =
     collectFiles env dir rest textList
       (case findFileExt filePath of
          None \<Rightarrow> w
        | Some ext \<Rightarrow> w\<lparr>zhRegLastIndex := snd (hasZhStr (fsReadFile env filePath) (zhRegLastIndex w))\<rparr>)"
  by (cases "findFileExt filePath") (simp_all add: getCodes_no_zh [OF assms])

lemma pick_output_zh:
  assumes "pickZhStrByAst parse code li = (Inr out, li')"
  shows "\<forall>v \<in> set out. v \<noteq> [] \<and> hasZh v"
proof -
  from assms obtain program st where
    t: "traverse code program \<lparr>zhStrSet = [], usedNodes = [], lastIndex = li\<rparr> = (None, st)"
    and r: "fst (returnList (zhStrSet st) (lastIndex st)) = out"
    unfolding pickZhStrByAst_def
    by (auto split: option.splits prod.splits)
  show ?thesis using returnList_elems [of _ "zhStrSet st" "lastIndex st"] unfolding r by blast
qed

lemma entry_text:
  "join newline [asc ''esbuild transform error'', filePath, message, code, concat (replicate 4 newline)]
   = (asc ''esbuild transform error'' @ [0x0A] @ filePath @ [0x0A] @ message @ [0x0A] @ code
            @ [0x0A, 0x0A, 0x0A, 0x0A, 0x0A])"
  by (simp add: newline_def numeral_eq_Suc)



lemma transform_rejected_no_log:
  assumes "esbuildTransform env (loaderFor ext) code = Inl message"
    "\<not> fsAppendFile env (errorLog w) (asc ''esbuild transform error'' @ [0x0A] @ filePath @ [0x0A] @ message @ [0x0A] @ code
            @ [0x0A, 0x0A, 0x0A, 0x0A, 0x0A])"
  shows "transformWithEsbuild env filePath code ext w = (Inl WriteFileError, w)"
  using assms(2) unfolding transformWithEsbuild_def assms(1) Let_def entry_text by simp














lemma ext_ts: "findFileExt (asc ''d/a.ts'') = Some ''ts''"
  by (simp add: findFileExt_def fileExtList_def codeExtList_def preCodeExtList_def endsWith_def
        dotBefore_def asc_def)





text \<open>
  C6. A file whose text holds no target-script character yields no unit: getCodesFromFile
  returns the empty list right after the test of the text, whatever the transpiler, the
  splitter and the parser would do and whatever \<open>lastIndex\<close> is, and the loop over the
  files goes on to the next file without an entry for this one. And every value that an
  extraction returns holds a target-script character.
\<close>

theorem no_zh_text_skipped:
  "(\<not> hasZh (fsReadFile env filePath) \<longrightarrow>
      getCodesFromFile env filePath ext w =
        (Inr [], w\<lparr>zhRegLastIndex := snd (hasZhStr (fsReadFile env filePath) (zhRegLastIndex w))\<rparr>)
      \<and> collectFiles env dir (filePath # rest) textList w =
          collectFiles env dir rest textList
            (case findFileExt filePath of
               None \<Rightarrow> w
             | Some x \<Rightarrow> w\<lparr>zhRegLastIndex :=
                              snd (hasZhStr (fsReadFile env filePath) (zhRegLastIndex w))\<rparr>))
   \<and> (pickZhStrByAst parse code li = (Inr out, li') \<longrightarrow> (\<forall>v \<in> set out. v \<noteq> [] \<and> hasZh v))"
  using getCodes_no_zh [of env filePath ext w] collect_no_zh [of env filePath dir rest textList w]
    pick_output_zh [of parse code li out li']
  by blast


theorem no_zh_text_skipped_witness:
  "\<not> hasZh (fsReadFile (rejectingParser\<lparr>fsReadFile := (\<lambda>p. asc ''x = 1'')\<rparr>) (asc ''d/a.ts''))
   \<and> getCodesFromFile (rejectingParser\<lparr>fsReadFile := (\<lambda>p. asc ''x = 1'')\<rparr>) (asc ''d/a.ts'') ''ts''
        (world0\<lparr>zhRegLastIndex := 1\<rparr>)
      = (Inr [], world0)
   \<and> collectFiles (rejectingParser\<lparr>fsReadFile := (\<lambda>p. asc ''x = 1'')\<rparr>) (asc ''d'') [asc ''d/a.ts''] []
        (world0\<lparr>zhRegLastIndex := 1\<rparr>)
      = (Inr [], world0)
   \<and> pickZhStrByAst (\<lambda>_. Some assignProgram) assignCode 0 = (Inr [[0x662F]], 1)
   \<and> hasZh [0x662F]"
proof -
  let ?env = "rejectingParser\<lparr>fsReadFile := (\<lambda>p. asc ''x = 1'')\<rparr>"
  let ?w = "world0\<lparr>zhRegLastIndex := 1\<rparr>"
  have r: "fsReadFile ?env (asc ''d/a.ts'') = asc ''x = 1''" by simp
  have n: "\<not> hasZh (fsReadFile ?env (asc ''d/a.ts''))"
    unfolding r by (simp add: hasZh_def asc_def inZhRange_def)
  have t: "hasZhStr (asc ''x = 1'') (zhRegLastIndex ?w) = (False, 0)"
    by (simp add: hasZhStr_pos hasZh_def asc_def inZhRange_def isHighSurrogate_def)
  have w: "?w\<lparr>zhRegLastIndex := 0\<rparr> = world0" by (simp add: world0_def)
  note T = no_zh_text_skipped [of ?env "asc ''d/a.ts''" "''ts''" ?w
        "asc ''d''" "[]" "[]" "\<lambda>_. Some assignProgram" assignCode 0 "[[0x662F]]" 1]
  from T n have g: "getCodesFromFile ?env (asc ''d/a.ts'') ''ts'' ?w =
      (Inr [], ?w\<lparr>zhRegLastIndex := snd (hasZhStr (fsReadFile ?env (asc ''d/a.ts'')) (zhRegLastIndex ?w))\<rparr>)"
    by blast
  from T n have c: "collectFiles ?env (asc ''d'') [asc ''d/a.ts''] [] ?w =
      collectFiles ?env (asc ''d'') [] []
        (case findFileExt (asc ''d/a.ts'') of
           None \<Rightarrow> ?w
         | Some x \<Rightarrow> ?w\<lparr>zhRegLastIndex := snd (hasZhStr (fsReadFile ?env (asc ''d/a.ts'')) (zhRegLastIndex ?w))\<rparr>)"
    by blast
  from T assign_first have z: "\<forall>v \<in> set [[0x662F :: 16 word]]. v \<noteq> [] \<and> hasZh v" by blast
  have g': "getCodesFromFile ?env (asc ''d/a.ts'') ''ts'' ?w = (Inr [], world0)"
    using g unfolding r t using w by simp
  have c': "collectFiles ?env (asc ''d'') [asc ''d/a.ts''] [] ?w = (Inr [], world0)"
    using c unfolding r t ext_ts using w by simp
  show ?thesis using n g' c' assign_first z by simp
qed









end
